theory Spec2Isabelle
  imports Complex_Main "HOL-Library.Sublist" "HOL-Library.Multiset"
begin

section \<open>Strings\<close>

text \<open>
  A string of the program is a list of characters. The string methods the program calls
  are written out below with the meaning they have in the language: \<open>a.startsWith(b)\<close>,
  \<open>a.endsWith(b)\<close>, \<open>a.includes(b)\<close> (here \<open>includesStr\<close>), \<open>a.toLowerCase()\<close>, \<open>a.split(sep)\<close> for a
  one-character separator, \<open>a.slice(0, -k)\<close>, \<open>a.substring(0, k)\<close>. Characters are
  eight bits wide here, so the model covers the strings whose code units are below 256;
  \<open>length\<close> counts code units, as \<open>.length\<close> does.
\<close>

definition startsWith :: "string \<Rightarrow> string \<Rightarrow> bool" where
  "startsWith s p = (take (length p) s = p)"

definition endsWith :: "string \<Rightarrow> string \<Rightarrow> bool" where
  "endsWith s p = (length p \<le> length s \<and> drop (length s - length p) s = p)"

fun includesStr :: "string \<Rightarrow> string \<Rightarrow> bool" where
  "includesStr [] p = (p = [])"
| "includesStr (c # cs) p = (startsWith (c # cs) p \<or> includesStr cs p)"

definition lowerChar :: "char \<Rightarrow> char" where
  "lowerChar c =
     (let n = (of_char c :: nat)
      in if (65 \<le> n \<and> n \<le> 90) \<or> (192 \<le> n \<and> n \<le> 222 \<and> n \<noteq> 215)
         then char_of (n + 32) else c)"

definition toLowerCase :: "string \<Rightarrow> string" where
  "toLowerCase s = map lowerChar s"

fun split :: "char \<Rightarrow> string \<Rightarrow> string list" where
  "split sep [] = [[]]"
| "split sep (c # cs) =
     (if c = sep then [] # split sep cs
      else (case split sep cs of [] \<Rightarrow> [[c]] | r # rs \<Rightarrow> (c # r) # rs))"

text \<open>\<open>s.slice(0, -k)\<close> drops the last \<open>k\<close> characters.\<close>

definition sliceEnd :: "string \<Rightarrow> nat \<Rightarrow> string" where
  "sliceEnd s k = take (length s - k) s"

text \<open>The decimal numeral a template literal prints for a non-negative integer.\<close>

definition digit :: "nat \<Rightarrow> char" where
  "digit d = char_of (48 + d)"

fun decimal :: "nat \<Rightarrow> string" where
  "decimal n = (if n < 10 then [digit n] else decimal (n div 10) @ [digit (n mod 10)])"

declare decimal.simps [simp del]

section \<open>The URL parser\<close>

text \<open>
  \<open>parseGithubUrl\<close> (src/services/github.ts) reads two fields of the platform's \<open>URL\<close>
  object. The platform's constructor is not part of the program: it is the parameter
  \<open>parseURL\<close>, which returns \<open>None\<close> where \<open>new URL(url)\<close> throws. The \<open>catch\<close> of the
  source turns that into \<open>null\<close>, here \<open>None\<close>.
\<close>

record url_obj =
  hostname :: string
  pathname :: string

definition parseGithubUrl :: "(string \<Rightarrow> url_obj option) \<Rightarrow> string \<Rightarrow> (string \<times> string) option" where
  "parseGithubUrl parseURL url =
     (case parseURL url of
        None \<Rightarrow> None
      | Some urlObj \<Rightarrow>
          if hostname urlObj \<noteq> ''github.com'' then None
          else
            let parts = filter (\<lambda>s. s \<noteq> []) (split (CHR ''/'') (pathname urlObj))
            in if length parts < 2 then None
               else
                 let owner = parts ! 0;
                     repo = parts ! 1;
                     repo = (if endsWith repo ''.git'' then sliceEnd repo 4 else repo)
                 in Some (owner, repo))"

text \<open>Joining segments with a separator: what a path of segments looks like as text.\<close>

fun joinWith :: "char \<Rightarrow> string list \<Rightarrow> string" where
  "joinWith sep [] = []"
| "joinWith sep [s] = s"
| "joinWith sep (s # t # ts) = s @ sep # joinWith sep (t # ts)"

section \<open>The tree filter, the priority sort and the file-count cap\<close>

text \<open>
  An entry of the tree listing. The source reads \<open>node.type\<close>, \<open>node.size\<close> (which may be
  absent) and \<open>node.path\<close>.
\<close>

record tree_node =
  path :: string
  ntype :: string
  nsize :: "nat option"

record fetch_options =
  fetchAll :: bool
  branch :: "string option"
  maxFileSize :: "nat option"

definition defaultExtensions :: "string list" where
  "defaultExtensions =
     [''.js'', ''.jsx'', ''.ts'', ''.tsx'', ''.py'', ''.go'', ''.java'', ''.c'', ''.cpp'', ''.rs'',
      ''.rb'', ''.php'', ''.html'', ''.css'', ''.json'', ''.md'', ''.yml'', ''.yaml'', ''.toml'', ''.sql'']"

definition effectiveExtensions :: "fetch_options \<Rightarrow> string list \<Rightarrow> string list" where
  "effectiveExtensions options allowedExtensions =
     (if fetchAll options then []
      else if length allowedExtensions > 0 then allowedExtensions else defaultExtensions)"

text \<open>
  \<open>maxSizeBytes\<close>: \<open>None\<close> stands for \<open>Infinity\<close>. \<open>options.maxFileSize || 100 * 1024\<close>
  takes the default when the field is absent or zero.
\<close>

definition maxSizeBytes :: "fetch_options \<Rightarrow> nat option" where
  "maxSizeBytes options =
     (if fetchAll options then None
      else (case maxFileSize options of
              None \<Rightarrow> Some (100 * 1024)
            | Some m \<Rightarrow> if m = 0 then Some (100 * 1024) else Some m))"

text \<open>\<open>node.size && node.size > maxSizeBytes\<close>: an absent or zero size is never too large.\<close>

definition tooLarge :: "fetch_options \<Rightarrow> tree_node \<Rightarrow> bool" where
  "tooLarge options node =
     (case nsize node of
        None \<Rightarrow> False
      | Some sz \<Rightarrow> sz \<noteq> 0 \<and> (case maxSizeBytes options of None \<Rightarrow> False | Some m \<Rightarrow> sz > m))"

definition isBlocked :: "string \<Rightarrow> bool" where
  "isBlocked p =
     (includesStr p ''package-lock'' \<or>
      includesStr p ''yarn.lock'' \<or>
      includesStr p ''node_modules/'' \<or>
      includesStr p ''dist/'' \<or>
      includesStr p ''build/'' \<or>
      includesStr p ''.min.'' \<or>
      endsWith p ''.png'' \<or>
      endsWith p ''.jpg'' \<or>
      endsWith p ''.ico'' \<or>
      endsWith p ''.svg'')"

text \<open>The callback of \<open>treeData.tree.filter\<close>.\<close>

definition keepNode :: "fetch_options \<Rightarrow> string list \<Rightarrow> tree_node \<Rightarrow> bool" where
  "keepNode options allowedExtensions node =
     (if ntype node \<noteq> ''blob'' then False
      else if tooLarge options node then False
      else if isBlocked (path node) then False
      else if fetchAll options then True
      else list_ex (\<lambda>ext. endsWith (path node) ext) (effectiveExtensions options allowedExtensions))"

definition allFiles :: "fetch_options \<Rightarrow> string list \<Rightarrow> tree_node list \<Rightarrow> tree_node list" where
  "allFiles options allowedExtensions tree = filter (keepNode options allowedExtensions) tree"

definition score :: "string \<Rightarrow> int" where
  "score p =
     (if includesStr (toLowerCase p) ''readme.md'' then 3
      else if endsWith p ''json'' \<or> endsWith p ''toml'' \<or> endsWith p ''yml'' then 2
      else if startsWith p ''src/'' then 1
      else 0)"

definition compareFiles :: "tree_node \<Rightarrow> tree_node \<Rightarrow> int" where
  "compareFiles a b = score (path b) - score (path a)"

text \<open>
  \<open>Array.prototype.sort\<close> belongs to the language, which requires it to be stable. For a
  comparator that orders by a score, a stable sort has one possible result; the model
  computes it by insertion: an element goes in front of the first later element that
  the comparator does not put before it.
\<close>

fun insertBy :: "('a \<Rightarrow> 'a \<Rightarrow> int) \<Rightarrow> 'a \<Rightarrow> 'a list \<Rightarrow> 'a list" where
  "insertBy cmp x [] = [x]"
| "insertBy cmp x (y # ys) = (if cmp x y \<le> 0 then x # y # ys else y # insertBy cmp x ys)"

definition sortBy :: "('a \<Rightarrow> 'a \<Rightarrow> int) \<Rightarrow> 'a list \<Rightarrow> 'a list" where
  "sortBy cmp xs = foldr (insertBy cmp) xs []"

definition sortedFiles :: "tree_node list \<Rightarrow> tree_node list" where
  "sortedFiles files = sortBy compareFiles files"

definition limit :: "fetch_options \<Rightarrow> string list \<Rightarrow> nat" where
  "limit options allowedExtensions =
     (if fetchAll options then 200
      else if length allowedExtensions > 0 \<and> length allowedExtensions < 3 then 30 else 20)"

definition filesToFetch :: "fetch_options \<Rightarrow> string list \<Rightarrow> tree_node list \<Rightarrow> tree_node list" where
  "filesToFetch options allowedExtensions tree =
     take (limit options allowedExtensions) (sortedFiles (allFiles options allowedExtensions tree))"

section \<open>The fetch session\<close>

text \<open>
  \<open>fetchGithubRepoContents\<close> (src/services/github.ts) talks to the network, reports
  through two callbacks and throws. In the model the network is an environment of
  answers, the calls of \<open>onProgress\<close> and \<open>onFileUpdate\<close> are a log of events in call
  order, and a thrown \<open>Error\<close> is a value of \<open>fetch_error\<close>; \<open>message\<close> gives the text the
  source throws for each. \<open>RequestRejected\<close> is the rejection of the metadata or tree
  request itself, which the source lets through.
\<close>

datatype fetch_error =
    InvalidUrl
  | RepoNotFound
  | RateLimited
  | ApiError string nat
  | BranchNotFound string
  | TreeLookupFailed
  | NoFilesFound
  | DownloadFailed
  | RequestRejected

fun message :: "fetch_error \<Rightarrow> string" where
  "message InvalidUrl = ''Invalid GitHub URL. Please use format: https://github.com/owner/repo''"
| "message RepoNotFound = ''Repository not found. It might be private or the URL is incorrect.''"
| "message RateLimited = ''GitHub API rate limit exceeded. Please try again later or use a VPN.''"
| "message (ApiError statusText status) =
     ''GitHub API Error: '' @ statusText @ '' ('' @ decimal status @ '')''"
| "message (BranchNotFound b) = ''Branch '' @ [CHR 0x27] @ b @ [CHR 0x27] @ '' not found.''"
| "message TreeLookupFailed = ''Failed to retrieve file structure.''"
| "message NoFilesFound = ''No analyzable code files found matching the criteria.''"
| "message DownloadFailed = ''Failed to download raw file contents. Network or CORS issue.''"
| "message RequestRejected = []"

text \<open>
  What a \<open>fetch\<close> settles to: a rejection (\<open>Rejected True\<close> when the rejection is an
  \<open>AbortError\<close>), or a response with its status, status text and body. For a raw file
  \<open>Rejected\<close> also stands for a body that cannot be read: the source handles both in the
  same \<open>catch\<close>. Bodies are taken as already decoded.
\<close>

datatype 'a fetched = Rejected bool | Response nat string 'a

definition ok :: "nat \<Rightarrow> bool" where
  "ok status = (200 \<le> status \<and> status \<le> 299)"

record repo_data =
  default_branch :: "string option"
  description :: "string option"
  stargazers_count :: nat
  language :: "string option"

record tree_data =
  tree :: "tree_node list"
  truncated :: bool

text \<open>
  The signal: \<open>None\<close> when it never aborts, \<open>Some k\<close> when it is aborted from the check
  before batch \<open>k\<close> on. The check after the loop is the check numbered with the count
  of batches.
\<close>

record env =
  parseURL :: "string \<Rightarrow> url_obj option"
  fetchRepo :: "string \<Rightarrow> repo_data fetched"
  fetchTree :: "string \<Rightarrow> tree_data fetched"
  fetchRaw :: "string \<Rightarrow> string fetched"
  abortedFrom :: "nat option"

definition aborted :: "env \<Rightarrow> nat \<Rightarrow> bool" where
  "aborted e t = (case abortedFrom e of None \<Rightarrow> False | Some k \<Rightarrow> k \<le> t)"

datatype file_status = Pending | Success | Failed

datatype event = Progress string | FileUpdate string "nat option" file_status

text \<open>\<open>a || b\<close> on strings that may be absent: an absent or empty string is falsy.\<close>

definition orElse :: "string option \<Rightarrow> string \<Rightarrow> string" where
  "orElse a b = (case a of None \<Rightarrow> b | Some s \<Rightarrow> if s = [] then b else s)"

definition MAX_TEXT_LENGTH :: "fetch_options \<Rightarrow> nat" where
  "MAX_TEXT_LENGTH options = (if fetchAll options then 100000 else 50000)"

definition truncateText :: "fetch_options \<Rightarrow> string \<Rightarrow> string" where
  "truncateText options text =
     (if length text > MAX_TEXT_LENGTH options
      then take (MAX_TEXT_LENGTH options) text @ ''\<newline>...[Truncated]...''
      else text)"

text \<open>The file record of the corpus, as the download callback returns it.\<close>

definition fileRecord :: "string \<Rightarrow> string \<Rightarrow> string" where
  "fileRecord p body =
     ''--- FILE: '' @ p @ '' ---\<newline>'' @ body @ ''\<newline>--- END OF FILE ---\<newline>\<newline>''"

definition rawUrl :: "string \<Rightarrow> string \<Rightarrow> string \<Rightarrow> string \<Rightarrow> string" where
  "rawUrl owner repo br p =
     ''https://raw.githubusercontent.com/'' @ owner @ ''/'' @ repo @ ''/'' @ br @ ''/'' @ p"

text \<open>
  The state the download loop carries: the strings pushed to \<open>results\<close>, \<open>loadedCount\<close>
  and the log.
\<close>

record dl_state =
  results :: "string list"
  loadedCount :: nat
  log :: "event list"

text \<open>
  One callback of \<open>batch.map\<close>. The files of a batch are fetched concurrently; the model
  settles them in list order, which is the order \<open>Promise.all\<close> gives their results.
\<close>

definition fetchOne ::
  "env \<Rightarrow> fetch_options \<Rightarrow> string \<Rightarrow> string \<Rightarrow> string \<Rightarrow> nat \<Rightarrow> nat \<Rightarrow> dl_state \<Rightarrow> tree_node \<Rightarrow> dl_state" where
  "fetchOne e options owner repo br totalCount t st file =
     (if aborted e t then st
      else case fetchRaw e (rawUrl owner repo br (path file)) of
        Rejected isAbort \<Rightarrow>
          (if \<not> isAbort then st\<lparr>log := log st @ [FileUpdate (path file) (nsize file) Failed]\<rparr>
           else st)
      | Response status statusText text \<Rightarrow>
          if \<not> ok status
          then st\<lparr>log := log st @ [FileUpdate (path file) (nsize file) Failed]\<rparr>
          else
            st\<lparr>results := results st @ [fileRecord (path file) (truncateText options text)],
               loadedCount := loadedCount st + 1,
               log := log st @
                 [Progress (''Downloading files ('' @ decimal (loadedCount st + 1) @ ''/'' @
                            decimal totalCount @ '')...''),
                  FileUpdate (path file) (nsize file) Success]\<rparr>)"

definition batchSize :: nat where
  "batchSize = 5"

function downloadLoop ::
  "env \<Rightarrow> fetch_options \<Rightarrow> string \<Rightarrow> string \<Rightarrow> string \<Rightarrow> tree_node list \<Rightarrow> nat \<Rightarrow> dl_state \<Rightarrow> dl_state" where
  "downloadLoop e options owner repo br files i st =
     (if i < length files then
        (if aborted e (i div batchSize) then st
         else
           let batch = take batchSize (drop i files);
               st' = foldl (fetchOne e options owner repo br (length files) (i div batchSize)) st batch
           in downloadLoop e options owner repo br files (i + batchSize) st')
      else st)"
  by pat_completeness auto
termination
  by (relation "measure (\<lambda>(e, options, owner, repo, br, files, i, st). length files - i)")
     (auto simp: batchSize_def)

declare downloadLoop.simps [simp del]

definition batchCount :: "nat \<Rightarrow> nat" where
  "batchCount n = (n + batchSize - 1) div batchSize"

record fetch_result =
  content :: string
  repoDetails :: "string \<times> string \<times> string"

definition header :: "string \<Rightarrow> string \<Rightarrow> string \<Rightarrow> repo_data \<Rightarrow> string" where
  "header owner repo br repoData =
     ''Repository: '' @ owner @ ''/'' @ repo @ ''\<newline>Branch: '' @ br @
     ''\<newline>Description: '' @ orElse (description repoData) ''N/A'' @
     ''\<newline>Stars: '' @ decimal (stargazers_count repoData) @
     ''\<newline>Language: '' @ (case language repoData of None \<Rightarrow> ''null'' | Some l \<Rightarrow> l) @
     ''\<newline>\<newline>''"

text \<open>
  The download phase and the assembly: steps 4 and 5 of the source, from the files
  selected to the thrown error or the returned corpus.
\<close>

definition download ::
  "env \<Rightarrow> fetch_options \<Rightarrow> string \<Rightarrow> string \<Rightarrow> string \<Rightarrow> repo_data \<Rightarrow> tree_node list \<Rightarrow> event list
     \<Rightarrow> event list \<times> (fetch_error + fetch_result)" where
  "download e options owner repo br repoData files log0 =
     (let st0 = \<lparr>results = [], loadedCount = 0,
                 log = log0 @ [Progress (''Downloading '' @ decimal (length files) @ '' files...'')]\<rparr>;
          st = downloadLoop e options owner repo br files 0 st0
      in if length (results st) = 0 \<and> \<not> aborted e (batchCount (length files))
         then (log st, Inl DownloadFailed)
         else (log st @ [Progress ''Repository loaded successfully.''],
               Inr \<lparr>content = header owner repo br repoData @ concat (results st),
                    repoDetails = (owner, repo, br)\<rparr>))"

definition repoApiUrl :: "string \<Rightarrow> string \<Rightarrow> string" where
  "repoApiUrl owner repo = ''https://api.github.com/repos/'' @ owner @ ''/'' @ repo"

definition treeApiUrl :: "string \<Rightarrow> string \<Rightarrow> string \<Rightarrow> string" where
  "treeApiUrl owner repo br =
     ''https://api.github.com/repos/'' @ owner @ ''/'' @ repo @ ''/git/trees/'' @ br @ ''?recursive=1''"

text \<open>Step 3 of the source: filter, sort, cap, announce the files, then download.\<close>

definition selectFiles ::
  "env \<Rightarrow> string list \<Rightarrow> fetch_options \<Rightarrow> string \<Rightarrow> string \<Rightarrow> string \<Rightarrow> repo_data \<Rightarrow> tree_data
     \<Rightarrow> event list \<Rightarrow> event list \<times> (fetch_error + fetch_result)" where
  "selectFiles e allowedExtensions options owner repo br repoData treeData log2 =
     (let log3 = log2 @
            (if truncated treeData
             then [Progress ''Warning: Large repository, analyzing partial content...'']
             else []);
          files = filesToFetch options allowedExtensions (tree treeData)
      in if length files = 0 then (log3, Inl NoFilesFound)
         else download e options owner repo br repoData files
                (log3 @ map (\<lambda>f. FileUpdate (path f) (nsize f) Pending) files))"

text \<open>Step 2 of the source: the branch and the tree lookup.\<close>

definition lookupTree ::
  "env \<Rightarrow> string list \<Rightarrow> fetch_options \<Rightarrow> string \<Rightarrow> string \<Rightarrow> repo_data
     \<Rightarrow> event list \<Rightarrow> event list \<times> (fetch_error + fetch_result)" where
  "lookupTree e allowedExtensions options owner repo repoData log1 =
     (let br = orElse (branch options) (orElse (default_branch repoData) ''main'');
          log2 = log1 @ [Progress (''Scanning repository structure ('' @ br @ '')...'')]
      in case fetchTree e (treeApiUrl owner repo br) of
           Rejected a \<Rightarrow> (log2, Inl RequestRejected)
         | Response status statusText treeData \<Rightarrow>
             if \<not> ok status then
               (if status = 404 then (log2, Inl (BranchNotFound br))
                else (log2, Inl TreeLookupFailed))
             else selectFiles e allowedExtensions options owner repo br repoData treeData log2)"

text \<open>Step 1 of the source: the repository metadata.\<close>

definition lookupRepo ::
  "env \<Rightarrow> string list \<Rightarrow> fetch_options \<Rightarrow> string \<Rightarrow> string
     \<Rightarrow> event list \<times> (fetch_error + fetch_result)" where
  "lookupRepo e allowedExtensions options owner repo =
     (let log1 = [Progress ''Connecting to GitHub API...'']
      in case fetchRepo e (repoApiUrl owner repo) of
           Rejected a \<Rightarrow> (log1, Inl RequestRejected)
         | Response status statusText repoData \<Rightarrow>
             if \<not> ok status then
               (if status = 404 then (log1, Inl RepoNotFound)
                else if status = 403 then (log1, Inl RateLimited)
                else (log1, Inl (ApiError statusText status)))
             else lookupTree e allowedExtensions options owner repo repoData log1)"

definition fetchGithubRepoContents ::
  "env \<Rightarrow> string \<Rightarrow> string list \<Rightarrow> fetch_options \<Rightarrow> event list \<times> (fetch_error + fetch_result)" where
  "fetchGithubRepoContents e url allowedExtensions options =
     (case parseGithubUrl (parseURL e) url of
        None \<Rightarrow> ([], Inl InvalidUrl)
      | Some (owner, repo) \<Rightarrow> lookupRepo e allowedExtensions options owner repo)"

section \<open>The chunker\<close>

text \<open>
  \<open>chunkCode\<close> (the retrieval service, src/unnamed/part_004) scans the corpus with the
  regular expression
  \<^verbatim>\<open>/--- FILE: (.*?) ---\n([\s\S]*?)\n--- END OF FILE ---/g\<close>.
  The matcher below is that expression read by the language's backtracking rules: a
  lazy group first tries to stop, and takes one more character only when the rest of
  the pattern fails; \<open>.\<close> takes any character but a line terminator; a failed start
  position gives way to the next one. A match is the pair of groups and the text after
  the match, where the next \<open>exec\<close> resumes.
\<close>

record 'v CodeChunk =
  chunkId :: string
  fileName :: string
  chunkContent :: string
  embedding :: "'v option"

definition lineTerminator :: "char \<Rightarrow> bool" where
  "lineTerminator c = (c = CHR 0x0A \<or> c = CHR 0x0D)"

definition startMark :: string where
  "startMark = ''--- FILE: ''"

definition nameMark :: string where
  "nameMark = '' ---\<newline>''"

definition endMark :: string where
  "endMark = ''\<newline>--- END OF FILE ---''"

text \<open>\<^verbatim>\<open>([\s\S]*?)\n--- END OF FILE ---\<close>\<close>

fun matchBody :: "string \<Rightarrow> (string \<times> string) option" where
  "matchBody [] = None"
| "matchBody (c # cs) =
     (if startsWith (c # cs) endMark then Some ([], drop (length endMark) (c # cs))
      else map_option (\<lambda>(b, r). (c # b, r)) (matchBody cs))"

text \<open>\<^verbatim>\<open>(.*?) ---\n\<close> and then the body.\<close>

fun matchName :: "string \<Rightarrow> (string \<times> string \<times> string) option" where
  "matchName [] = None"
| "matchName (c # cs) =
     (case (if startsWith (c # cs) nameMark then matchBody (drop (length nameMark) (c # cs)) else None) of
        Some (b, r) \<Rightarrow> Some ([], b, r)
      | None \<Rightarrow>
          if lineTerminator c then None
          else map_option (\<lambda>(n, b, r). (c # n, b, r)) (matchName cs))"

definition matchAt :: "string \<Rightarrow> (string \<times> string \<times> string) option" where
  "matchAt s = (if startsWith s startMark then matchName (drop (length startMark) s) else None)"

text \<open>\<open>regex.exec\<close>: the first start position with a match.\<close>

fun exec :: "string \<Rightarrow> (string \<times> string \<times> string) option" where
  "exec [] = None"
| "exec (c # cs) = (case matchAt (c # cs) of Some m \<Rightarrow> Some m | None \<Rightarrow> exec cs)"

text \<open>\<^verbatim>\<open>content.match(/[\s\S]{1,2000}/g) || []\<close>\<close>

function subChunks :: "string \<Rightarrow> string list" where
  "subChunks s = (if s = [] then [] else take 2000 s # subChunks (drop 2000 s))"
  by pat_completeness auto
termination
  by (relation "measure length") auto

declare subChunks.simps [simp del]

text \<open>The chunks one match pushes, with \<open>idx\<close> the counter before the match.\<close>

definition fileChunks :: "nat \<Rightarrow> string \<Rightarrow> string \<Rightarrow> 'v CodeChunk list" where
  "fileChunks idx name body =
     (if length body > 2000 then
        map (\<lambda>(i, sc). \<lparr>chunkId = ''chunk-'' @ decimal (idx + i),
                         fileName = name @ '' (Part '' @ decimal (i + 1) @ '')'',
                         chunkContent = sc,
                         embedding = None\<rparr>)
            (enumerate 0 (subChunks body))
      else [\<lparr>chunkId = ''chunk-'' @ decimal idx, fileName = name, chunkContent = body,
              embedding = None\<rparr>])"

lemma startsWith_length:
  assumes "startsWith s p"
  shows "length p \<le> length s"
proof -
  from assms have "length (take (length p) s) = length p"
    by (simp add: startsWith_def)
  then show ?thesis by simp
qed

lemma matchBody_length:
  "matchBody s = Some (b, r) \<Longrightarrow> length s = length b + length endMark + length r"
proof (induction s arbitrary: b)
  case Nil
  then show ?case by simp
next
  case (Cons c cs)
  show ?case
  proof (cases "startsWith (c # cs) endMark")
    case True
    with Cons.prems have "b = []" and "r = drop (length endMark) (c # cs)" by auto
    moreover from True have "length endMark \<le> length (c # cs)"
      by (rule startsWith_length)
    ultimately show ?thesis by simp
  next
    case False
    with Cons.prems obtain b' where "matchBody cs = Some (b', r)" and "b = c # b'"
      by auto
    with Cons.IH show ?thesis by simp
  qed
qed

lemma matchName_length:
  "matchName s = Some (n, b, r) \<Longrightarrow> length r < length s"
proof (induction s arbitrary: n)
  case Nil
  then show ?case by simp
next
  case (Cons c cs)
  show ?case
  proof (cases "if startsWith (c # cs) nameMark then matchBody (drop (length nameMark) (c # cs)) else None")
    case (Some m)
    then obtain b' r' where m: "m = (b', r')" by (cases m)
    with Some Cons.prems have "r' = r" by simp
    moreover from Some m have "matchBody (drop (length nameMark) (c # cs)) = Some (b', r')"
      by (simp split: if_splits)
    then have "length (drop (length nameMark) (c # cs)) = length b' + length endMark + length r'"
      by (rule matchBody_length)
    ultimately show ?thesis by (simp add: endMark_def)
  next
    case None
    with Cons.prems obtain n' where "matchName cs = Some (n', b, r)"
      by (auto split: if_splits)
    then have "length r < length cs" by (rule Cons.IH)
    then show ?thesis by simp
  qed
qed

lemma exec_length:
  "exec s = Some (n, b, r) \<Longrightarrow> length r < length s"
proof (induction s)
  case Nil
  then show ?case by simp
next
  case (Cons c cs)
  show ?case
  proof (cases "matchAt (c # cs)")
    case None
    with Cons show ?thesis by simp
  next
    case (Some m)
    with Cons.prems have "matchAt (c # cs) = Some (n, b, r)" by simp
    then have "matchName (drop (length startMark) (c # cs)) = Some (n, b, r)"
      by (simp add: matchAt_def split: if_splits)
    then have "length r < length (drop (length startMark) (c # cs))"
      by (rule matchName_length)
    then show ?thesis by simp
  qed
qed

text \<open>The \<open>while\<close> loop of \<open>chunkCode\<close>.\<close>

function chunkLoop :: "string \<Rightarrow> nat \<Rightarrow> 'v CodeChunk list \<Rightarrow> 'v CodeChunk list" where
  "chunkLoop s idx chunks =
     (case exec s of
        None \<Rightarrow> chunks
      | Some (name, body, rest) \<Rightarrow>
          chunkLoop rest (idx + length (fileChunks idx name body :: 'v CodeChunk list))
            (chunks @ fileChunks idx name body))"
  by pat_completeness auto
termination
  by (relation "measure (\<lambda>(s, idx, chunks). length s)") (auto dest: exec_length)

declare chunkLoop.simps [simp del]

definition chunkCode :: "string \<Rightarrow> 'v CodeChunk list" where
  "chunkCode fullCodeContext = chunkLoop fullCodeContext 0 []"

section \<open>The embedding indexer\<close>

text \<open>
  \<open>indexCodebase\<close> calls the embedding service once per chunk, in order. The service
  is the parameter \<open>generateEmbedding\<close>: the answer to the call numbered \<open>i\<close> on a text,
  \<open>None\<close> when the call throws. The result is the calls of \<open>onProgress\<close>, in order, and
  the list returned. The pause between two requests is not modelled.
\<close>

definition indexStep ::
  "(nat \<Rightarrow> string \<Rightarrow> 'v option) \<Rightarrow> 'v CodeChunk list
     \<Rightarrow> (nat \<times> nat) list \<times> 'v CodeChunk list \<Rightarrow> nat \<Rightarrow> (nat \<times> nat) list \<times> 'v CodeChunk list" where
  "indexStep generateEmbedding chunks st i =
     (case st of (progress, indexedChunks) \<Rightarrow>
        (progress @ [(i + 1, length chunks)],
         (case generateEmbedding i (chunkContent (chunks ! i)) of
            Some v \<Rightarrow> indexedChunks @ [(chunks ! i)\<lparr>embedding := Some v\<rparr>]
          | None \<Rightarrow> indexedChunks @ [chunks ! i])))"

definition indexCodebase ::
  "(nat \<Rightarrow> string \<Rightarrow> 'v option) \<Rightarrow> string \<Rightarrow> (nat \<times> nat) list \<times> 'v CodeChunk list" where
  "indexCodebase generateEmbedding codeContext =
     (let chunks = chunkCode codeContext
      in foldl (indexStep generateEmbedding chunks) ([], []) [0..<length chunks])"

section \<open>The similarity search\<close>
















section \<open>The vocabulary of the claims and the sample data\<close>

text \<open>
  What the claim calls lying under a directory: the path starts with the directory, or
  has it as an inner segment.
\<close>

definition liesUnder :: "string \<Rightarrow> string \<Rightarrow> bool" where
  "liesUnder d p = (prefix (d @ ''/'') p \<or> sublist (''/'' @ d @ ''/'') p)"

text \<open>
  A tree with the four paths of the specification and a README, in fetch-everything
  mode: only the README is selected.
\<close>

definition blocklistTree :: "tree_node list" where
  "blocklistTree =
     [\<lparr>path = ''node_modules/anything.js'', ntype = ''blob'', nsize = Some 10\<rparr>,
      \<lparr>path = ''yarn.lock'', ntype = ''blob'', nsize = Some 10\<rparr>,
      \<lparr>path = ''app.min.js'', ntype = ''blob'', nsize = Some 10\<rparr>,
      \<lparr>path = ''logo.svg'', ntype = ''blob'', nsize = Some 10\<rparr>,
      \<lparr>path = ''README.md'', ntype = ''blob'', nsize = Some 10\<rparr>]"

text \<open>
  An environment for the repository \<open>octocat/hello\<close> in which the metadata lookup and
  the tree lookup answer with the given statuses.
\<close>

definition lookupEnv :: "nat \<Rightarrow> nat \<Rightarrow> env" where
  "lookupEnv metaStatus treeStatus =
     \<lparr>parseURL = (\<lambda>u. Some \<lparr>hostname = ''github.com'', pathname = ''/octocat/hello''\<rparr>),
      fetchRepo = (\<lambda>u. Response metaStatus ''status text''
         \<lparr>default_branch = Some ''main'', description = None, stargazers_count = 7,
          language = Some ''TypeScript''\<rparr>),
      fetchTree = (\<lambda>u. Response treeStatus ''status text'' \<lparr>tree = [], truncated = False\<rparr>),
      fetchRaw = (\<lambda>u. Rejected False),
      abortedFrom = None\<rparr>"

text \<open>A parser of four sample URLs, for the example below.\<close>

definition sampleParseURL :: "string \<Rightarrow> url_obj option" where
  "sampleParseURL url =
     (if url = ''https://github.com/octocat/hello.git/tree/main''
      then Some \<lparr>hostname = ''github.com'', pathname = ''/octocat/hello.git/tree/main''\<rparr>
      else if url = ''https://github.com/octocat/hello''
      then Some \<lparr>hostname = ''github.com'', pathname = ''/octocat/hello''\<rparr>
      else if url = ''https://gitlab.com/octocat/hello''
      then Some \<lparr>hostname = ''gitlab.com'', pathname = ''/octocat/hello''\<rparr>
      else if url = ''https://github.com/octocat''
      then Some \<lparr>hostname = ''github.com'', pathname = ''/octocat''\<rparr>
      else None)"

text \<open>
  The priority classes in the words of the specification: a path ending in
  \<open>readme.md\<close> in any case, then a path ending in \<open>.json\<close>, \<open>.toml\<close> or \<open>.yml\<close>, then a
  path under \<open>src/\<close>, then the rest.
\<close>

definition specPriority :: "string \<Rightarrow> int" where
  "specPriority p =
     (if suffix ''readme.md'' (toLowerCase p) then 3
      else if suffix ''.json'' p \<or> suffix ''.toml'' p \<or> suffix ''.yml'' p then 2
      else if prefix ''src/'' p then 1
      else 0)"

definition blob :: "string \<Rightarrow> tree_node" where
  "blob p = \<lparr>path = p, ntype = ''blob'', nsize = None\<rparr>"

text \<open>
  The words of the claim, for a file of the selection: its batch was started (the files
  before \<open>attemptedCount\<close>), its fetch succeeded (a response with a 2xx status), its
  fetch failed for a reason other than cancellation (a non-2xx response, or a rejection
  that is not an \<open>AbortError\<close>), and the text of its response.
\<close>

definition attemptedCount :: "env \<Rightarrow> nat \<Rightarrow> nat" where
  "attemptedCount e n = (case abortedFrom e of None \<Rightarrow> n | Some k \<Rightarrow> min (k * batchSize) n)"

definition fetchedOk :: "env \<Rightarrow> string \<Rightarrow> string \<Rightarrow> string \<Rightarrow> tree_node \<Rightarrow> bool" where
  "fetchedOk e owner repo br f =
     (case fetchRaw e (rawUrl owner repo br (path f)) of
        Rejected a \<Rightarrow> False
      | Response status statusText text \<Rightarrow> ok status)"

definition fetchFailed :: "env \<Rightarrow> string \<Rightarrow> string \<Rightarrow> string \<Rightarrow> tree_node \<Rightarrow> bool" where
  "fetchFailed e owner repo br f =
     (case fetchRaw e (rawUrl owner repo br (path f)) of
        Rejected a \<Rightarrow> \<not> a
      | Response status statusText text \<Rightarrow> \<not> ok status)"

definition fetchedText :: "env \<Rightarrow> string \<Rightarrow> string \<Rightarrow> string \<Rightarrow> tree_node \<Rightarrow> string" where
  "fetchedText e owner repo br f =
     (case fetchRaw e (rawUrl owner repo br (path f)) of
        Rejected a \<Rightarrow> []
      | Response status statusText text \<Rightarrow> text)"

definition isFailure :: "event \<Rightarrow> bool" where
  "isFailure ev = (case ev of Progress s \<Rightarrow> False | FileUpdate p sz st \<Rightarrow> st = Failed)"

definition recordOf :: "env \<Rightarrow> fetch_options \<Rightarrow> string \<Rightarrow> string \<Rightarrow> string \<Rightarrow> tree_node \<Rightarrow> string" where
  "recordOf e options owner repo br f =
     fileRecord (path f) (truncateText options (fetchedText e owner repo br f))"

text \<open>
  The scenario of the specification: eight files, the five of the first batch answered
  with 200, the three of the second with 500. Beside it, the same files with no signal
  and every answer a 500, and with the signal aborted before the first batch.
\<close>

definition sampleMeta :: repo_data where
  "sampleMeta = \<lparr>default_branch = Some ''main'', description = None, stargazers_count = 7,
                 language = Some ''TypeScript''\<rparr>"

definition fakeMeta :: repo_data where
  "fakeMeta = \<lparr>default_branch = Some ''main'', description = Some ''--- FILE: fake ---'',
               stargazers_count = 7, language = Some ''TypeScript''\<rparr>"

definition eightFiles :: "tree_node list" where
  "eightFiles = map (\<lambda>p. \<lparr>path = p, ntype = ''blob'', nsize = Some 1\<rparr>)
     [''a1'', ''a2'', ''a3'', ''a4'', ''a5'', ''b1'', ''b2'', ''b3'']"

definition scenarioEnv :: "string list \<Rightarrow> nat option \<Rightarrow> env" where
  "scenarioEnv failing sig =
     \<lparr>parseURL = (\<lambda>u. None),
      fetchRepo = (\<lambda>u. Rejected False),
      fetchTree = (\<lambda>u. Rejected False),
      fetchRaw = (\<lambda>u. if u \<in> set (map (rawUrl ''octocat'' ''hello'' ''main'') failing)
                       then Response 500 ''Internal Server Error'' []
                       else Response 200 ''OK'' ''x''),
      abortedFrom = sig\<rparr>"

text \<open>The chunks the loop is to push for a list of files, numbered from \<open>idx\<close>.\<close>

fun chunksOf :: "nat \<Rightarrow> (string \<times> string) list \<Rightarrow> 'v CodeChunk list" where
  "chunksOf idx [] = []"
| "chunksOf idx ((n, c) # fs) =
     fileChunks idx n c @ chunksOf (idx + length (fileChunks idx n c :: 'v CodeChunk list)) fs"

text \<open>A chunk without its identifier and embedding.\<close>

definition pairOf :: "'v CodeChunk \<Rightarrow> string \<times> string" where
  "pairOf ch = (fileName ch, chunkContent ch)"

text \<open>
  The words of the claim: a file of at most 2000 characters is recovered as itself; a
  longer one as pieces, none empty or longer than 2000 characters, that rejoin to its
  content, labelled with the file name and the number of the part, counted from 1.
\<close>

definition partName :: "string \<Rightarrow> nat \<Rightarrow> string" where
  "partName n i = n @ '' (Part '' @ decimal (i + 1) @ '')''"

definition recovered :: "string \<times> string \<Rightarrow> (string \<times> string) list \<Rightarrow> bool" where
  "recovered f g =
     (if length (snd f) \<le> 2000 then g = [f]
      else concat (map snd g) = snd f
        \<and> map fst g = map (partName (fst f)) [0..<length g]
        \<and> list_all (\<lambda>p. p \<noteq> [] \<and> length p \<le> 2000) (map snd g))"

text \<open>
  The corpus of a list of files: the header and the file records, as \<open>download\<close>
  joins them.
\<close>

definition corpus :: "string \<Rightarrow> string \<Rightarrow> string \<Rightarrow> repo_data \<Rightarrow> (string \<times> string) list \<Rightarrow> string" where
  "corpus owner repo br repoData files =
     header owner repo br repoData @ concat (map (\<lambda>(n, c). fileRecord n c) files)"

text \<open>The entry the indexer pushes for the chunk numbered \<open>i\<close>.\<close>

definition indexed :: "(nat \<Rightarrow> string \<Rightarrow> 'v option) \<Rightarrow> 'v CodeChunk list \<Rightarrow> nat \<Rightarrow> 'v CodeChunk" where
  "indexed gen chunks i =
     (case gen i (chunkContent (chunks ! i)) of
        Some v \<Rightarrow> (chunks ! i)\<lparr>embedding := Some v\<rparr>
      | None \<Rightarrow> chunks ! i)"

text \<open>A service that answers the first request and fails the second.\<close>

definition firstOnly :: "nat \<Rightarrow> string \<Rightarrow> int list option" where
  "firstOnly i t = (if i = 0 then Some [1, 2, 3] else None)"









section \<open>Facts about the string operations\<close>

lemmas string_eval =
  startsWith_def endsWith_def toLowerCase_def lowerChar_def digit_def char_of_def bit_Suc_0_iff

lemma startsWith_prefix: "startsWith s p \<longleftrightarrow> prefix p s"
  unfolding startsWith_def
  by (metis append_eq_conv_conj prefix_def)

lemma endsWith_suffix: "endsWith s p \<longleftrightarrow> suffix p s"
proof
  assume "endsWith s p"
  then have "s = take (length s - length p) s @ p"
    unfolding endsWith_def by (metis append_take_drop_id)
  then show "suffix p s" unfolding suffix_def by blast
next
  assume "suffix p s"
  then obtain q where "s = q @ p" unfolding suffix_def by blast
  then show "endsWith s p" unfolding endsWith_def by simp
qed

lemma includesStr_sublist: "includesStr s p \<longleftrightarrow> sublist p s"
proof (induction s)
  case Nil
  show ?case by simp
next
  case (Cons c cs)
  show ?case
    by (simp add: Cons.IH startsWith_prefix sublist_Cons_right)
qed

section \<open>Facts about the sort\<close>

lemma mset_insertBy: "mset (insertBy cmp x ys) = add_mset x (mset ys)"
  by (induction ys) auto

lemma mset_sortBy: "mset (sortBy cmp xs) = mset xs"
  unfolding sortBy_def by (induction xs) (auto simp: mset_insertBy)

lemma set_insertBy: "set (insertBy cmp x ys) = insert x (set ys)"
  by (induction ys) auto

lemma set_sortedFiles: "set (sortedFiles xs) = set xs"
  unfolding sortedFiles_def by (metis mset_sortBy set_mset_mset)

lemma sorted_insertBy:
  assumes "sorted_wrt (\<lambda>a b. score (path b) \<le> score (path a)) ys"
  shows "sorted_wrt (\<lambda>a b. score (path b) \<le> score (path a)) (insertBy compareFiles x ys)"
  using assms
proof (induction ys)
  case Nil
  show ?case by simp
next
  case (Cons y ys)
  show ?case
  proof (cases "compareFiles x y \<le> 0")
    case True
    then have xy: "score (path y) \<le> score (path x)" by (simp add: compareFiles_def)
    from Cons.prems have "\<forall>z\<in>set ys. score (path z) \<le> score (path y)" by simp
    with xy have "\<forall>z\<in>set (y # ys). score (path z) \<le> score (path x)" by auto
    with True Cons.prems show ?thesis by simp
  next
    case False
    then have yx: "score (path x) \<le> score (path y)" by (simp add: compareFiles_def)
    from Cons.prems have "sorted_wrt (\<lambda>a b. score (path b) \<le> score (path a)) ys" by simp
    then have "sorted_wrt (\<lambda>a b. score (path b) \<le> score (path a)) (insertBy compareFiles x ys)"
      by (rule Cons.IH)
    moreover from Cons.prems yx
    have "\<forall>z\<in>set (insertBy compareFiles x ys). score (path z) \<le> score (path y)"
      by (simp add: set_insertBy)
    ultimately show ?thesis using False by simp
  qed
qed

lemma sorted_sortedFiles:
  "sorted_wrt (\<lambda>a b. score (path b) \<le> score (path a)) (sortedFiles xs)"
  unfolding sortedFiles_def sortBy_def
  by (induction xs) (simp_all add: sorted_insertBy)

lemma filter_insertBy:
  "filter (\<lambda>f. score (path f) = k) (insertBy compareFiles x ys) =
     (if score (path x) = k then [x] else []) @ filter (\<lambda>f. score (path f) = k) ys"
  by (induction ys) (auto simp: compareFiles_def)

lemma stable_sortedFiles:
  "filter (\<lambda>f. score (path f) = k) (sortedFiles xs) = filter (\<lambda>f. score (path f) = k) xs"
  unfolding sortedFiles_def sortBy_def
  by (induction xs) (simp_all add: filter_insertBy)

section \<open>The file-count cap\<close>

text \<open>
  C5, as the claim states it, fails: with fetch-everything off, an allow-list of one
  extension gets the cap 30 and the default allow-list the cap 20, so the narrowed cap
  is not the smaller one.
\<close>

theorem cap_narrowed_not_smaller:
  "\<not> limit \<lparr>fetchAll = False, branch = None, maxFileSize = None\<rparr> [''.ts'']
       < limit \<lparr>fetchAll = False, branch = None, maxFileSize = None\<rparr> []"
  by (simp add: limit_def)

text \<open>
  C5, amended: the selection is the first \<open>limit\<close> files of the sorted, filtered list,
  so it never has more than \<open>limit\<close> files; the cap is 200 in fetch-everything mode,
  which is larger than any cap outside it; outside fetch-everything mode the cap is 30
  for an allow-list of one or two extensions and 20 for an empty or longer one, so
  narrowing the allow-list raises the cap.
\<close>

theorem file_count_cap:
  "filesToFetch options exts tr = take (limit options exts) (sortedFiles (allFiles options exts tr))
   \<and> length (filesToFetch options exts tr) \<le> limit options exts
   \<and> (fetchAll options \<longrightarrow> limit options exts = 200)
   \<and> (\<not> fetchAll options \<longrightarrow> limit options exts < 200)
   \<and> (\<not> fetchAll options \<and> (length exts = 1 \<or> length exts = 2) \<longrightarrow> limit options exts = 30)
   \<and> (\<not> fetchAll options \<and> (exts = [] \<or> 3 \<le> length exts) \<longrightarrow> limit options exts = 20)"
  by (auto simp: filesToFetch_def limit_def)

theorem file_count_cap_witness:
  "limit \<lparr>fetchAll = True, branch = None, maxFileSize = None\<rparr> [] = 200
   \<and> limit \<lparr>fetchAll = False, branch = None, maxFileSize = None\<rparr> [''.ts'', ''.py''] = 30
   \<and> limit \<lparr>fetchAll = False, branch = None, maxFileSize = None\<rparr> [''.ts'', ''.py'', ''.go''] = 20
   \<and> limit \<lparr>fetchAll = False, branch = None, maxFileSize = None\<rparr> [] = 20
   \<and> length (filesToFetch \<lparr>fetchAll = False, branch = None, maxFileSize = None\<rparr> [''.ts'', ''.py''] [])
         \<le> 30"
  using
    file_count_cap [of "\<lparr>fetchAll = True, branch = None, maxFileSize = None\<rparr>" "[]" "[]"]
    file_count_cap [of "\<lparr>fetchAll = False, branch = None, maxFileSize = None\<rparr>" "[''.ts'', ''.py'']" "[]"]
    file_count_cap [of "\<lparr>fetchAll = False, branch = None, maxFileSize = None\<rparr>"
      "[''.ts'', ''.py'', ''.go'']" "[]"]
    file_count_cap [of "\<lparr>fetchAll = False, branch = None, maxFileSize = None\<rparr>" "[]" "[]"]
  by simp

section \<open>The blocklist\<close>

lemma liesUnder_sublist: "liesUnder d p \<Longrightarrow> sublist (d @ ''/'') p"
proof -
  assume "liesUnder d p"
  then consider "prefix (d @ ''/'') p" | "sublist (''/'' @ d @ ''/'') p"
    unfolding liesUnder_def by blast
  then show ?thesis
  proof cases
    case 1
    then show ?thesis by (rule prefix_imp_sublist)
  next
    case 2
    have "sublist (d @ ''/'') (''/'' @ d @ ''/'')"
      by (metis sublist_appendI append_Nil2)
    then show ?thesis using 2 by (rule sublist_order.order_trans)
  qed
qed

lemma keepNode_not_blocked: "keepNode options exts f \<Longrightarrow> \<not> isBlocked (path f)"
  unfolding keepNode_def by (auto split: if_splits)

lemma filesToFetch_subset:
  "set (filesToFetch options exts tr) \<subseteq> set (allFiles options exts tr)"
proof -
  have "set (filesToFetch options exts tr) \<subseteq> set (sortedFiles (allFiles options exts tr))"
    unfolding filesToFetch_def by (rule set_take_subset)
  then show ?thesis by (simp add: set_sortedFiles)
qed

text \<open>
  C6: whatever the allow-list, the size threshold and the fetch-everything flag, no
  file kept by the filter, and so none selected for download, has a path that contains
  \<open>package-lock\<close> or \<open>yarn.lock\<close>, lies under \<open>node_modules/\<close>, \<open>dist/\<close> or \<open>build/\<close>,
  contains \<open>.min.\<close>, or ends in \<open>.png\<close>, \<open>.jpg\<close>, \<open>.ico\<close> or \<open>.svg\<close>; the four paths
  the specification names are never selected.
\<close>

theorem blocklist_enforced:
  assumes "f \<in> set (allFiles options exts tr) \<or> f \<in> set (filesToFetch options exts tr)"
  shows "\<not> sublist ''package-lock'' (path f)
    \<and> \<not> sublist ''yarn.lock'' (path f)
    \<and> \<not> liesUnder ''node_modules'' (path f)
    \<and> \<not> liesUnder ''dist'' (path f)
    \<and> \<not> liesUnder ''build'' (path f)
    \<and> \<not> sublist ''.min.'' (path f)
    \<and> \<not> suffix ''.png'' (path f)
    \<and> \<not> suffix ''.jpg'' (path f)
    \<and> \<not> suffix ''.ico'' (path f)
    \<and> \<not> suffix ''.svg'' (path f)
    \<and> path f \<noteq> ''node_modules/anything.js''
    \<and> path f \<noteq> ''yarn.lock''
    \<and> path f \<noteq> ''app.min.js''
    \<and> path f \<noteq> ''logo.svg''"
proof -
  from assms have "f \<in> set (allFiles options exts tr)"
    using filesToFetch_subset by blast
  then have "keepNode options exts f" by (simp add: allFiles_def)
  then have nb: "\<not> isBlocked (path f)" by (rule keepNode_not_blocked)
  from nb have 1: "\<not> sublist ''package-lock'' (path f)"
    by (simp add: isBlocked_def includesStr_sublist)
  from nb have 2: "\<not> sublist ''yarn.lock'' (path f)"
    by (simp add: isBlocked_def includesStr_sublist)
  from nb have "\<not> sublist (''node_modules'' @ ''/'') (path f)"
    by (simp add: isBlocked_def includesStr_sublist)
  then have 3: "\<not> liesUnder ''node_modules'' (path f)"
    using liesUnder_sublist by blast
  from nb have "\<not> sublist (''dist'' @ ''/'') (path f)"
    by (simp add: isBlocked_def includesStr_sublist)
  then have 4: "\<not> liesUnder ''dist'' (path f)"
    using liesUnder_sublist by blast
  from nb have "\<not> sublist (''build'' @ ''/'') (path f)"
    by (simp add: isBlocked_def includesStr_sublist)
  then have 5: "\<not> liesUnder ''build'' (path f)"
    using liesUnder_sublist by blast
  from nb have 6: "\<not> sublist ''.min.'' (path f)"
    by (simp add: isBlocked_def includesStr_sublist)
  from nb have 7: "\<not> suffix ''.png'' (path f)" "\<not> suffix ''.jpg'' (path f)"
    "\<not> suffix ''.ico'' (path f)" "\<not> suffix ''.svg'' (path f)"
    by (simp_all add: isBlocked_def endsWith_suffix)
  have "isBlocked ''node_modules/anything.js''" "isBlocked ''yarn.lock''"
    "isBlocked ''app.min.js''" "isBlocked ''logo.svg''"
    by (simp_all add: isBlocked_def startsWith_def endsWith_def)
  with nb have 8: "path f \<noteq> ''node_modules/anything.js''" "path f \<noteq> ''yarn.lock''"
    "path f \<noteq> ''app.min.js''" "path f \<noteq> ''logo.svg''"
    by auto
  from 1 2 3 4 5 6 7 8 show ?thesis by blast
qed

lemma blocklistTree_selected:
  "filesToFetch \<lparr>fetchAll = True, branch = None, maxFileSize = None\<rparr> [] blocklistTree =
     [\<lparr>path = ''README.md'', ntype = ''blob'', nsize = Some 10\<rparr>]"
  by (simp add: blocklistTree_def filesToFetch_def allFiles_def keepNode_def tooLarge_def
      maxSizeBytes_def isBlocked_def limit_def sortedFiles_def sortBy_def startsWith_def
      endsWith_def)

theorem blocklist_enforced_witness:
  "\<lparr>path = ''README.md'', ntype = ''blob'', nsize = Some 10\<rparr>
     \<in> set (filesToFetch \<lparr>fetchAll = True, branch = None, maxFileSize = None\<rparr> [] blocklistTree)
   \<and> \<not> sublist ''package-lock'' ''README.md''
   \<and> \<not> liesUnder ''node_modules'' ''README.md''
   \<and> \<not> suffix ''.svg'' ''README.md''"
proof -
  have sel: "\<lparr>path = ''README.md'', ntype = ''blob'', nsize = Some 10\<rparr>
      \<in> set (filesToFetch \<lparr>fetchAll = True, branch = None, maxFileSize = None\<rparr> [] blocklistTree)"
    by (simp add: blocklistTree_selected)
  then have "\<lparr>path = ''README.md'', ntype = ''blob'', nsize = Some 10\<rparr>
      \<in> set (allFiles \<lparr>fetchAll = True, branch = None, maxFileSize = None\<rparr> [] blocklistTree)
    \<or> \<lparr>path = ''README.md'', ntype = ''blob'', nsize = Some 10\<rparr>
      \<in> set (filesToFetch \<lparr>fetchAll = True, branch = None, maxFileSize = None\<rparr> [] blocklistTree)"
    by blast
  from blocklist_enforced [OF this] sel show ?thesis by simp
qed

section \<open>The error taxonomy of the lookups\<close>

lemma metadata_lookup_errors:
  assumes "parseGithubUrl (parseURL e) url = Some (owner, repo)"
    and "fetchRepo e (repoApiUrl owner repo) = Response status statusText repoData"
    and "\<not> ok status"
  shows "snd (fetchGithubRepoContents e url exts options) =
     (if status = 404 then Inl RepoNotFound
      else if status = 403 then Inl RateLimited
      else Inl (ApiError statusText status))"
  using assms by (simp add: fetchGithubRepoContents_def lookupRepo_def)

lemma tree_lookup_errors:
  assumes "parseGithubUrl (parseURL e) url = Some (owner, repo)"
    and "fetchRepo e (repoApiUrl owner repo) = Response status statusText repoData"
    and "ok status"
    and "br = orElse (branch options) (orElse (default_branch repoData) ''main'')"
    and "fetchTree e (treeApiUrl owner repo br) = Response tstatus tstatusText treeData"
    and "\<not> ok tstatus"
  shows "snd (fetchGithubRepoContents e url exts options) =
     (if tstatus = 404 then Inl (BranchNotFound br) else Inl TreeLookupFailed)"
  using assms by (simp add: fetchGithubRepoContents_def lookupRepo_def lookupTree_def Let_def)

text \<open>
  C4: the metadata lookup tells 404, 403 and the other statuses apart, and the tree
  lookup tells 404 apart, as the claim says. A 403 from the tree lookup is not
  reported as the rate limit: with the repository found and the tree lookup answered
  by 403, the session fails with the error of every other failed tree lookup,
  "Failed to retrieve file structure.", where the same status from the metadata lookup
  gives the rate-limit error.
\<close>

theorem tree_lookup_403_not_rate_limited:
  "snd (fetchGithubRepoContents (lookupEnv 200 403) ''https://github.com/octocat/hello'' []
          \<lparr>fetchAll = False, branch = None, maxFileSize = None\<rparr>) = Inl TreeLookupFailed
   \<and> message TreeLookupFailed = ''Failed to retrieve file structure.''
   \<and> TreeLookupFailed \<noteq> RateLimited
   \<and> snd (fetchGithubRepoContents (lookupEnv 403 200) ''https://github.com/octocat/hello'' []
          \<lparr>fetchAll = False, branch = None, maxFileSize = None\<rparr>) = Inl RateLimited
   \<and> snd (fetchGithubRepoContents (lookupEnv 404 200) ''https://github.com/octocat/hello'' []
          \<lparr>fetchAll = False, branch = None, maxFileSize = None\<rparr>) = Inl RepoNotFound
   \<and> snd (fetchGithubRepoContents (lookupEnv 500 200) ''https://github.com/octocat/hello'' []
          \<lparr>fetchAll = False, branch = None, maxFileSize = None\<rparr>) = Inl (ApiError ''status text'' 500)
   \<and> snd (fetchGithubRepoContents (lookupEnv 200 404) ''https://github.com/octocat/hello'' []
          \<lparr>fetchAll = False, branch = Some ''feature-x'', maxFileSize = None\<rparr>)
       = Inl (BranchNotFound ''feature-x'')"
  by (simp add: fetchGithubRepoContents_def parseGithubUrl_def lookupEnv_def lookupRepo_def
      lookupTree_def ok_def orElse_def endsWith_def)

section \<open>The URL parser\<close>

lemma split_no_sep: "sep \<notin> set s \<Longrightarrow> split sep s = [s]"
  by (induction s) auto

lemma split_append_sep:
  "sep \<notin> set s \<Longrightarrow> split sep (s @ sep # rest) = s # split sep rest"
  by (induction s) auto

lemma split_joinWith:
  assumes "segs \<noteq> []" and "\<forall>s\<in>set segs. sep \<notin> set s"
  shows "split sep (joinWith sep segs) = segs"
  using assms
proof (induction sep segs rule: joinWith.induct)
  case (1 sep)
  then show ?case by simp
next
  case (2 sep s)
  then show ?case by (simp add: split_no_sep)
next
  case (3 sep s t ts)
  then have "split sep (joinWith sep (t # ts)) = t # ts" by simp
  moreover from 3 have "sep \<notin> set s" by simp
  ultimately show ?case by (simp add: split_append_sep)
qed

lemma joinWith_split: "joinWith sep (split sep s) = s"
proof (induction s)
  case Nil
  show ?case by simp
next
  case (Cons c cs)
  show ?case
  proof (cases "c = sep")
    case True
    obtain r rs where "split sep cs = r # rs"
      by (cases "split sep cs"; cases cs) (auto split: if_splits list.splits)
    with True Cons show ?thesis by simp
  next
    case False
    obtain r rs where rs: "split sep cs = r # rs"
      by (cases "split sep cs"; cases cs) (auto split: if_splits list.splits)
    with Cons have "joinWith sep (r # rs) = cs" by simp
    then have "joinWith sep ((c # r) # rs) = c # cs" by (cases rs) auto
    with False rs show ?thesis by simp
  qed
qed

text \<open>
  C7: the parser answers \<open>null\<close> when the URL does not parse, when its host is not
  \<open>github.com\<close>, and when its path has fewer than two non-empty segments; for the host
  \<open>github.com\<close> and a path whose non-empty segments start with an owner and a
  repository, whatever follows, it answers the owner and the repository, the latter
  without its \<open>.git\<close> suffix when it has one. The path is given by its segments, empty
  ones included: \<open>/octocat/hello\<close> is the segments \<open>[]\<close>, \<open>octocat\<close>, \<open>hello\<close>.
\<close>

theorem parseGithubUrl_contract:
  "(parse url = None \<longrightarrow> parseGithubUrl parse url = None)
   \<and> (parse url = Some u \<and> hostname u \<noteq> ''github.com'' \<longrightarrow> parseGithubUrl parse url = None)
   \<and> (parse url = Some u \<and> pathname u = joinWith (CHR ''/'') segs \<and> segs \<noteq> []
        \<and> (\<forall>s\<in>set segs. CHR ''/'' \<notin> set s) \<and> length (filter (\<lambda>s. s \<noteq> []) segs) < 2
      \<longrightarrow> parseGithubUrl parse url = None)
   \<and> (parse url = Some u \<and> hostname u = ''github.com''
        \<and> pathname u = joinWith (CHR ''/'') segs \<and> segs \<noteq> []
        \<and> (\<forall>s\<in>set segs. CHR ''/'' \<notin> set s) \<and> filter (\<lambda>s. s \<noteq> []) segs = owner # repo # others
      \<longrightarrow> (\<not> suffix ''.git'' repo \<longrightarrow> parseGithubUrl parse url = Some (owner, repo))
        \<and> (\<forall>r. repo = r @ ''.git'' \<longrightarrow> parseGithubUrl parse url = Some (owner, r)))"
proof -
  have 1: "parse url = None \<longrightarrow> parseGithubUrl parse url = None"
    by (simp add: parseGithubUrl_def)
  have 2: "parse url = Some u \<and> hostname u \<noteq> ''github.com'' \<longrightarrow> parseGithubUrl parse url = None"
    by (simp add: parseGithubUrl_def)
  have 3: "parseGithubUrl parse url = None"
    if "parse url = Some u" "pathname u = joinWith (CHR ''/'') segs" "segs \<noteq> []"
      "\<forall>s\<in>set segs. CHR ''/'' \<notin> set s" "length (filter (\<lambda>s. s \<noteq> []) segs) < 2"
  proof -
    from that have "split (CHR ''/'') (pathname u) = segs" by (simp add: split_joinWith)
    with that show ?thesis by (simp add: parseGithubUrl_def)
  qed
  have 4: "(\<not> suffix ''.git'' repo \<longrightarrow> parseGithubUrl parse url = Some (owner, repo))
        \<and> (\<forall>r. repo = r @ ''.git'' \<longrightarrow> parseGithubUrl parse url = Some (owner, r))"
    if "parse url = Some u" "hostname u = ''github.com''"
      "pathname u = joinWith (CHR ''/'') segs" "segs \<noteq> []"
      "\<forall>s\<in>set segs. CHR ''/'' \<notin> set s" "filter (\<lambda>s. s \<noteq> []) segs = owner # repo # others"
  proof -
    from that have sp: "split (CHR ''/'') (pathname u) = segs" by (simp add: split_joinWith)
    have a: "parseGithubUrl parse url = Some (owner, repo)" if "\<not> suffix ''.git'' repo"
      using that \<open>parse url = Some u\<close> \<open>hostname u = ''github.com''\<close> sp
        \<open>filter (\<lambda>s. s \<noteq> []) segs = owner # repo # others\<close>
      by (simp add: parseGithubUrl_def endsWith_suffix)
    have b: "parseGithubUrl parse url = Some (owner, r)" if "repo = r @ ''.git''" for r
    proof -
      from that have "endsWith repo ''.git''" by (simp add: endsWith_def)
      moreover from that have "sliceEnd repo 4 = r" by (simp add: sliceEnd_def)
      ultimately show ?thesis
        using \<open>parse url = Some u\<close> \<open>hostname u = ''github.com''\<close> sp
          \<open>filter (\<lambda>s. s \<noteq> []) segs = owner # repo # others\<close>
        by (simp add: parseGithubUrl_def)
    qed
    from a b show ?thesis by blast
  qed
  from 1 2 3 4 show ?thesis by blast
qed

theorem parseGithubUrl_contract_witness:
  "parseGithubUrl sampleParseURL ''https://github.com/octocat/hello.git/tree/main''
     = Some (''octocat'', ''hello'')
   \<and> parseGithubUrl sampleParseURL ''https://github.com/octocat/hello'' = Some (''octocat'', ''hello'')
   \<and> parseGithubUrl sampleParseURL ''https://gitlab.com/octocat/hello'' = None
   \<and> parseGithubUrl sampleParseURL ''https://github.com/octocat'' = None
   \<and> parseGithubUrl sampleParseURL ''not a url'' = None"
proof -
  have a: "parseGithubUrl sampleParseURL ''https://github.com/octocat/hello.git/tree/main''
      = Some (''octocat'', ''hello'')"
    using parseGithubUrl_contract [where parse = sampleParseURL
        and url = "''https://github.com/octocat/hello.git/tree/main''"
        and u = "\<lparr>hostname = ''github.com'', pathname = ''/octocat/hello.git/tree/main''\<rparr>"
        and segs = "[[], ''octocat'', ''hello.git'', ''tree'', ''main'']"
        and owner = "''octocat''" and repo = "''hello.git''" and others = "[''tree'', ''main'']"]
    by (simp add: sampleParseURL_def)
  have nosuf: "\<not> suffix ''.git'' ''hello''"
    by (simp add: endsWith_suffix [symmetric] endsWith_def)
  have b: "parseGithubUrl sampleParseURL ''https://github.com/octocat/hello'' = Some (''octocat'', ''hello'')"
    using nosuf parseGithubUrl_contract [where parse = sampleParseURL
        and url = "''https://github.com/octocat/hello''"
        and u = "\<lparr>hostname = ''github.com'', pathname = ''/octocat/hello''\<rparr>"
        and segs = "[[], ''octocat'', ''hello'']"
        and owner = "''octocat''" and repo = "''hello''" and others = "[]"]
    by (simp add: sampleParseURL_def)
  have c: "parseGithubUrl sampleParseURL ''https://gitlab.com/octocat/hello'' = None"
    using parseGithubUrl_contract [where parse = sampleParseURL
        and url = "''https://gitlab.com/octocat/hello''"
        and u = "\<lparr>hostname = ''gitlab.com'', pathname = ''/octocat/hello''\<rparr>"]
    by (simp add: sampleParseURL_def)
  have d: "parseGithubUrl sampleParseURL ''https://github.com/octocat'' = None"
    using parseGithubUrl_contract [where parse = sampleParseURL
        and url = "''https://github.com/octocat''"
        and u = "\<lparr>hostname = ''github.com'', pathname = ''/octocat''\<rparr>"
        and segs = "[[], ''octocat'']"]
    by (simp add: sampleParseURL_def)
  have e: "parseGithubUrl sampleParseURL ''not a url'' = None"
    using parseGithubUrl_contract [where parse = sampleParseURL and url = "''not a url''"]
    by (simp add: sampleParseURL_def)
  from a b c d e show ?thesis by simp
qed

section \<open>The priority sort\<close>

lemma score_samples:
  "score ''map.geojson'' = 2" "score ''src/main.ts'' = 1"
  "score ''readme.md.json'' = 3" "score ''README.md'' = 3"
  "score ''package.json'' = 2" "score ''LICENSE'' = 0"
  by (simp_all add: score_def string_eval)

lemma specPriority_samples:
  "specPriority ''map.geojson'' = 0" "specPriority ''src/main.ts'' = 1"
  "specPriority ''readme.md.json'' = 2" "specPriority ''README.md'' = 3"
  by (simp_all add: specPriority_def endsWith_suffix [symmetric] startsWith_prefix [symmetric]
      string_eval)

text \<open>
  C2, as the claim states it, fails. \<open>map.geojson\<close> is none of a README, a \<open>.json\<close>,
  \<open>.toml\<close> or \<open>.yml\<close> file, or a path under \<open>src/\<close>, and the sort leaves it in front of
  \<open>src/main.ts\<close>; \<open>readme.md.json\<close> ends in \<open>.json\<close>, and the sort leaves it in front of
  \<open>README.md\<close>.
\<close>

theorem priority_sort_not_by_spec_classes:
  "\<not> sorted_wrt (\<lambda>a b. specPriority (path b) \<le> specPriority (path a))
        (sortedFiles [blob ''map.geojson'', blob ''src/main.ts''])
   \<and> \<not> sorted_wrt (\<lambda>a b. specPriority (path b) \<le> specPriority (path a))
        (sortedFiles [blob ''readme.md.json'', blob ''README.md''])"
proof -
  have "sortedFiles [blob ''map.geojson'', blob ''src/main.ts'']
      = [blob ''map.geojson'', blob ''src/main.ts'']"
    by (simp add: sortedFiles_def sortBy_def compareFiles_def blob_def score_samples)
  moreover have "sortedFiles [blob ''readme.md.json'', blob ''README.md'']
      = [blob ''readme.md.json'', blob ''README.md'']"
    by (simp add: sortedFiles_def sortBy_def compareFiles_def blob_def score_samples)
  ultimately show ?thesis
    by (simp add: blob_def specPriority_samples)
qed

text \<open>
  C2, amended: the sorted list is a rearrangement of the input in descending order of
  the score the code computes, and files of equal score keep their input order. The
  score is 3 when the lower-cased path contains \<open>readme.md\<close> anywhere, else 2 when the
  path ends in \<open>json\<close>, \<open>toml\<close> or \<open>yml\<close> (no dot needed), else 1 when it starts with
  \<open>src/\<close>, else 0. So a path ending in \<open>readme.md\<close> in any case has the highest score.
\<close>

theorem priority_sort_by_score:
  "mset (sortedFiles xs) = mset xs
   \<and> sorted_wrt (\<lambda>a b. score (path b) \<le> score (path a)) (sortedFiles xs)
   \<and> filter (\<lambda>f. score (path f) = k) (sortedFiles xs) = filter (\<lambda>f. score (path f) = k) xs
   \<and> score p =
       (if sublist ''readme.md'' (toLowerCase p) then 3
        else if suffix ''json'' p \<or> suffix ''toml'' p \<or> suffix ''yml'' p then 2
        else if prefix ''src/'' p then 1
        else 0)
   \<and> (suffix ''readme.md'' (toLowerCase p) \<longrightarrow> score p = 3)"
proof -
  have "mset (sortedFiles xs) = mset xs"
    by (simp add: sortedFiles_def mset_sortBy)
  moreover have "score p =
       (if sublist ''readme.md'' (toLowerCase p) then 3
        else if suffix ''json'' p \<or> suffix ''toml'' p \<or> suffix ''yml'' p then 2
        else if prefix ''src/'' p then 1
        else 0)"
    by (simp add: score_def includesStr_sublist endsWith_suffix startsWith_prefix)
  moreover have "suffix ''readme.md'' (toLowerCase p) \<longrightarrow> score p = 3"
    by (simp add: score_def includesStr_sublist)
  ultimately show ?thesis
    using sorted_sortedFiles [of xs] stable_sortedFiles [of k xs] by simp
qed

theorem priority_sort_by_score_witness:
  "sortedFiles [blob ''LICENSE'', blob ''src/main.ts'', blob ''package.json'', blob ''README.md'',
                blob ''map.geojson'']
     = [blob ''README.md'', blob ''package.json'', blob ''map.geojson'', blob ''src/main.ts'',
        blob ''LICENSE'']
   \<and> mset (sortedFiles [blob ''LICENSE'', blob ''src/main.ts'', blob ''package.json'',
        blob ''README.md'', blob ''map.geojson''])
     = mset [blob ''LICENSE'', blob ''src/main.ts'', blob ''package.json'', blob ''README.md'',
        blob ''map.geojson'']
   \<and> filter (\<lambda>f. score (path f) = 2)
        (sortedFiles [blob ''LICENSE'', blob ''src/main.ts'', blob ''package.json'',
           blob ''README.md'', blob ''map.geojson''])
     = [blob ''package.json'', blob ''map.geojson'']
   \<and> score ''README.md'' = 3"
proof -
  have h: "suffix ''readme.md'' (toLowerCase ''README.md'')"
    by (simp add: endsWith_suffix [symmetric] string_eval)
  have s: "sortedFiles [blob ''LICENSE'', blob ''src/main.ts'', blob ''package.json'',
        blob ''README.md'', blob ''map.geojson'']
     = [blob ''README.md'', blob ''package.json'', blob ''map.geojson'', blob ''src/main.ts'',
        blob ''LICENSE'']"
    by (simp add: sortedFiles_def sortBy_def compareFiles_def blob_def score_samples)
  from h s priority_sort_by_score [of "[blob ''LICENSE'', blob ''src/main.ts'', blob ''package.json'',
        blob ''README.md'', blob ''map.geojson'']" 2 "''README.md''"]
  show ?thesis
    by (simp add: blob_def score_samples)
qed

section \<open>The batched download\<close>

lemma fetchOne_results:
  assumes "\<not> aborted e t"
  shows "results (fetchOne e options owner repo br n t st f) =
     results st @ (if fetchedOk e owner repo br f then [recordOf e options owner repo br f] else [])"
  using assms
  by (simp add: fetchOne_def fetchedOk_def fetchedText_def recordOf_def split: fetched.splits)

lemma fetchOne_failures:
  assumes "\<not> aborted e t"
  shows "filter isFailure (log (fetchOne e options owner repo br n t st f)) =
     filter isFailure (log st) @
       (if fetchFailed e owner repo br f then [FileUpdate (path f) (nsize f) Failed] else [])"
  using assms
  by (simp add: fetchOne_def fetchFailed_def isFailure_def split: fetched.splits)

lemma batch_results:
  assumes "\<not> aborted e t"
  shows "results (foldl (fetchOne e options owner repo br n t) st batch) =
     results st @ map (recordOf e options owner repo br) (filter (fetchedOk e owner repo br) batch)"
  using assms
  by (induction batch arbitrary: st) (simp_all add: fetchOne_results)

lemma batch_failures:
  assumes "\<not> aborted e t"
  shows "filter isFailure (log (foldl (fetchOne e options owner repo br n t) st batch)) =
     filter isFailure (log st) @
       map (\<lambda>f. FileUpdate (path f) (nsize f) Failed) (filter (fetchFailed e owner repo br) batch)"
  using assms
  by (induction batch arbitrary: st) (simp_all add: fetchOne_failures)

text \<open>The files from \<open>i\<close> on that are attempted: the batch at \<open>i\<close> and the later ones.\<close>

lemma attempted_none:
  assumes "aborted e (i div batchSize) \<or> length files \<le> i"
  shows "drop i (take (attemptedCount e (length files)) files) = []"
proof -
  have "attemptedCount e (length files) \<le> i"
  proof (cases "aborted e (i div batchSize)")
    case True
    then obtain k where k: "abortedFrom e = Some k" "k \<le> i div batchSize"
      by (auto simp: aborted_def split: option.splits)
    then have "k * batchSize \<le> i div batchSize * batchSize" by simp
    also have "\<dots> \<le> i" by simp
    finally show ?thesis using k by (simp add: attemptedCount_def)
  next
    case False
    with assms have "length files \<le> i" by simp
    then show ?thesis by (auto simp: attemptedCount_def split: option.splits)
  qed
  then show ?thesis by simp
qed

lemma attempted_batch:
  assumes "\<not> aborted e (i div batchSize)" and "i < length files" and "batchSize dvd i"
  shows "drop i (take (attemptedCount e (length files)) files) =
     take batchSize (drop i files) @ drop (i + batchSize) (take (attemptedCount e (length files)) files)"
proof -
  define m where "m = attemptedCount e (length files)"
  have m: "m = length files \<or> i + batchSize \<le> m"
  proof (cases "abortedFrom e")
    case None
    then show ?thesis by (simp add: m_def attemptedCount_def)
  next
    case (Some k)
    with assms(1) have "i div batchSize < k" by (simp add: aborted_def)
    then have "i div batchSize + 1 \<le> k" by simp
    then have "(i div batchSize + 1) * batchSize \<le> k * batchSize" by (rule mult_le_mono1)
    moreover from assms(3) have "i div batchSize * batchSize = i" by simp
    ultimately have "i + batchSize \<le> k * batchSize" by (simp add: algebra_simps)
    with Some show ?thesis by (auto simp: m_def attemptedCount_def min_def)
  qed
  have "take batchSize (drop i (take m files)) = take batchSize (drop i files)"
  proof -
    have "drop i (take m files) = take (m - i) (drop i files)" by (simp add: drop_take)
    moreover have "take batchSize (take (m - i) (drop i files)) = take batchSize (drop i files)"
      using m by (auto simp: min_def)
    ultimately show ?thesis by simp
  qed
  moreover have "drop i (take m files) =
      take batchSize (drop i (take m files)) @ drop batchSize (drop i (take m files))"
    by (rule append_take_drop_id [symmetric])
  ultimately have "drop i (take m files) =
      take batchSize (drop i files) @ drop (i + batchSize) (take m files)"
    by (simp add: add.commute)
  then show ?thesis by (simp add: m_def)
qed

lemma downloadLoop_results:
  assumes "batchSize dvd i"
  shows "results (downloadLoop e options owner repo br files i st) =
     results st @ map (recordOf e options owner repo br)
       (filter (fetchedOk e owner repo br) (drop i (take (attemptedCount e (length files)) files)))"
  using assms
proof (induction e options owner repo br files i st rule: downloadLoop.induct)
  case (1 e options owner repo br files i st)
  show ?case
  proof (cases "i < length files \<and> \<not> aborted e (i div batchSize)")
    case False
    then have "drop i (take (attemptedCount e (length files)) files) = []"
      by (intro attempted_none) auto
    with False show ?thesis by (auto simp: downloadLoop.simps [of e options owner repo br files i st])
  next
    case True
    define st' where
      "st' = foldl (fetchOne e options owner repo br (length files) (i div batchSize)) st
               (take batchSize (drop i files))"
    from "1.prems" have dvd: "batchSize dvd (i + batchSize)" by simp
    from True have "downloadLoop e options owner repo br files i st =
        downloadLoop e options owner repo br files (i + batchSize) st'"
      by (simp add: downloadLoop.simps [of e options owner repo br files i st] st'_def)
    moreover have "results (downloadLoop e options owner repo br files (i + batchSize) st') =
        results st' @ map (recordOf e options owner repo br)
          (filter (fetchedOk e owner repo br)
            (drop (i + batchSize) (take (attemptedCount e (length files)) files)))"
      using True dvd by (intro "1.IH") (auto simp: st'_def)
    moreover have "results st' = results st @ map (recordOf e options owner repo br)
        (filter (fetchedOk e owner repo br) (take batchSize (drop i files)))"
      using True by (simp add: st'_def batch_results)
    moreover have "drop i (take (attemptedCount e (length files)) files) =
        take batchSize (drop i files) @
        drop (i + batchSize) (take (attemptedCount e (length files)) files)"
      using True "1.prems" by (intro attempted_batch) auto
    ultimately show ?thesis by simp
  qed
qed

lemma downloadLoop_failures:
  assumes "batchSize dvd i"
  shows "filter isFailure (log (downloadLoop e options owner repo br files i st)) =
     filter isFailure (log st) @ map (\<lambda>f. FileUpdate (path f) (nsize f) Failed)
       (filter (fetchFailed e owner repo br) (drop i (take (attemptedCount e (length files)) files)))"
  using assms
proof (induction e options owner repo br files i st rule: downloadLoop.induct)
  case (1 e options owner repo br files i st)
  show ?case
  proof (cases "i < length files \<and> \<not> aborted e (i div batchSize)")
    case False
    then have "drop i (take (attemptedCount e (length files)) files) = []"
      by (intro attempted_none) auto
    with False show ?thesis by (auto simp: downloadLoop.simps [of e options owner repo br files i st])
  next
    case True
    define st' where
      "st' = foldl (fetchOne e options owner repo br (length files) (i div batchSize)) st
               (take batchSize (drop i files))"
    from "1.prems" have dvd: "batchSize dvd (i + batchSize)" by simp
    from True have "downloadLoop e options owner repo br files i st =
        downloadLoop e options owner repo br files (i + batchSize) st'"
      by (simp add: downloadLoop.simps [of e options owner repo br files i st] st'_def)
    moreover have "filter isFailure (log (downloadLoop e options owner repo br files (i + batchSize) st')) =
        filter isFailure (log st') @ map (\<lambda>f. FileUpdate (path f) (nsize f) Failed)
          (filter (fetchFailed e owner repo br)
            (drop (i + batchSize) (take (attemptedCount e (length files)) files)))"
      using True dvd by (intro "1.IH") (auto simp: st'_def)
    moreover have "filter isFailure (log st') = filter isFailure (log st) @
        map (\<lambda>f. FileUpdate (path f) (nsize f) Failed)
          (filter (fetchFailed e owner repo br) (take batchSize (drop i files)))"
      using True by (simp add: st'_def batch_failures)
    moreover have "drop i (take (attemptedCount e (length files)) files) =
        take batchSize (drop i files) @
        drop (i + batchSize) (take (attemptedCount e (length files)) files)"
      using True "1.prems" by (intro attempted_batch) auto
    ultimately show ?thesis by simp
  qed
qed

text \<open>
  C3: the download throws \<open>DownloadFailed\<close> exactly when no attempted file was fetched
  with a 2xx response and the signal is not aborted at the end; in every other case it
  returns the header followed by the records of the files fetched, in selection order.
  The files marked \<open>error\<close> are exactly the attempted files whose fetch failed for a
  reason other than cancellation, a non-2xx response among them, and a failed file
  stops neither its batch nor the later ones.
\<close>

theorem download_partial_success:
  "snd (download e options owner repo br repoData files log0) =
     (if filter (fetchedOk e owner repo br) (take (attemptedCount e (length files)) files) = []
         \<and> \<not> aborted e (batchCount (length files))
      then Inl DownloadFailed
      else Inr \<lparr>content = header owner repo br repoData @
                  concat (map (recordOf e options owner repo br)
                    (filter (fetchedOk e owner repo br)
                       (take (attemptedCount e (length files)) files))),
                repoDetails = (owner, repo, br)\<rparr>)
   \<and> filter isFailure (fst (download e options owner repo br repoData files log0)) =
       filter isFailure log0 @ map (\<lambda>f. FileUpdate (path f) (nsize f) Failed)
         (filter (fetchFailed e owner repo br) (take (attemptedCount e (length files)) files))
   \<and> message DownloadFailed = ''Failed to download raw file contents. Network or CORS issue.''"
proof -
  define st0 where "st0 = \<lparr>results = [], loadedCount = 0,
      log = log0 @ [Progress (''Downloading '' @ decimal (length files) @ '' files...'')]\<rparr>"
  define st where "st = downloadLoop e options owner repo br files 0 st0"
  have r: "results st = map (recordOf e options owner repo br)
      (filter (fetchedOk e owner repo br) (take (attemptedCount e (length files)) files))"
    unfolding st_def by (simp add: downloadLoop_results st0_def)
  have f: "filter isFailure (log st) = filter isFailure log0 @
      map (\<lambda>f. FileUpdate (path f) (nsize f) Failed)
        (filter (fetchFailed e owner repo br) (take (attemptedCount e (length files)) files))"
    unfolding st_def by (simp add: downloadLoop_failures st0_def isFailure_def)
  have d: "download e options owner repo br repoData files log0 =
      (if length (results st) = 0 \<and> \<not> aborted e (batchCount (length files))
       then (log st, Inl DownloadFailed)
       else (log st @ [Progress ''Repository loaded successfully.''],
             Inr \<lparr>content = header owner repo br repoData @ concat (results st),
                  repoDetails = (owner, repo, br)\<rparr>))"
    by (simp only: download_def st_def st0_def Let_def)
  have "snd (download e options owner repo br repoData files log0) =
     (if filter (fetchedOk e owner repo br) (take (attemptedCount e (length files)) files) = []
         \<and> \<not> aborted e (batchCount (length files))
      then Inl DownloadFailed
      else Inr \<lparr>content = header owner repo br repoData @
                  concat (map (recordOf e options owner repo br)
                    (filter (fetchedOk e owner repo br)
                       (take (attemptedCount e (length files)) files))),
                repoDetails = (owner, repo, br)\<rparr>)"
    unfolding d by (simp add: r)
  moreover have "filter isFailure (fst (download e options owner repo br repoData files log0)) =
       filter isFailure log0 @ map (\<lambda>f. FileUpdate (path f) (nsize f) Failed)
         (filter (fetchFailed e owner repo br) (take (attemptedCount e (length files)) files))"
    unfolding d by (simp add: f isFailure_def)
  ultimately show ?thesis by simp
qed

theorem download_partial_success_witness:
  "snd (download (scenarioEnv [''b1'', ''b2'', ''b3''] None)
          \<lparr>fetchAll = False, branch = None, maxFileSize = None\<rparr>
          ''octocat'' ''hello'' ''main'' sampleMeta eightFiles [])
     = Inr \<lparr>content = header ''octocat'' ''hello'' ''main'' sampleMeta @
              concat (map (\<lambda>p. fileRecord p ''x'') [''a1'', ''a2'', ''a3'', ''a4'', ''a5'']),
            repoDetails = (''octocat'', ''hello'', ''main'')\<rparr>
   \<and> filter isFailure (fst (download (scenarioEnv [''b1'', ''b2'', ''b3''] None)
          \<lparr>fetchAll = False, branch = None, maxFileSize = None\<rparr>
          ''octocat'' ''hello'' ''main'' sampleMeta eightFiles []))
     = map (\<lambda>p. FileUpdate p (Some 1) Failed) [''b1'', ''b2'', ''b3'']
   \<and> snd (download (scenarioEnv [''a1'', ''a2'', ''a3'', ''a4'', ''a5'', ''b1'', ''b2'', ''b3''] None)
          \<lparr>fetchAll = False, branch = None, maxFileSize = None\<rparr>
          ''octocat'' ''hello'' ''main'' sampleMeta eightFiles [])
     = Inl DownloadFailed
   \<and> snd (download (scenarioEnv [''a1'', ''a2'', ''a3'', ''a4'', ''a5'', ''b1'', ''b2'', ''b3''] (Some 0))
          \<lparr>fetchAll = False, branch = None, maxFileSize = None\<rparr>
          ''octocat'' ''hello'' ''main'' sampleMeta eightFiles [])
     = Inr \<lparr>content = header ''octocat'' ''hello'' ''main'' sampleMeta,
            repoDetails = (''octocat'', ''hello'', ''main'')\<rparr>"
proof -
  note defs = scenarioEnv_def eightFiles_def attemptedCount_def fetchedOk_def fetchFailed_def
    fetchedText_def recordOf_def rawUrl_def ok_def aborted_def batchCount_def batchSize_def
    truncateText_def MAX_TEXT_LENGTH_def
  have a: "snd (download (scenarioEnv [''b1'', ''b2'', ''b3''] None)
          \<lparr>fetchAll = False, branch = None, maxFileSize = None\<rparr>
          ''octocat'' ''hello'' ''main'' sampleMeta eightFiles [])
     = Inr \<lparr>content = header ''octocat'' ''hello'' ''main'' sampleMeta @
              concat (map (\<lambda>p. fileRecord p ''x'') [''a1'', ''a2'', ''a3'', ''a4'', ''a5'']),
            repoDetails = (''octocat'', ''hello'', ''main'')\<rparr>
   \<and> filter isFailure (fst (download (scenarioEnv [''b1'', ''b2'', ''b3''] None)
          \<lparr>fetchAll = False, branch = None, maxFileSize = None\<rparr>
          ''octocat'' ''hello'' ''main'' sampleMeta eightFiles []))
     = map (\<lambda>p. FileUpdate p (Some 1) Failed) [''b1'', ''b2'', ''b3'']"
    using download_partial_success [where e = "scenarioEnv [''b1'', ''b2'', ''b3''] None"
        and owner = "''octocat''" and repo = "''hello''" and br = "''main''" and files = eightFiles
        and options = "\<lparr>fetchAll = False, branch = None, maxFileSize = None\<rparr>"
        and repoData = sampleMeta and ?log0.0 = "[]"]
    by (simp add: defs)
  have b: "snd (download (scenarioEnv [''a1'', ''a2'', ''a3'', ''a4'', ''a5'', ''b1'', ''b2'', ''b3''] None)
          \<lparr>fetchAll = False, branch = None, maxFileSize = None\<rparr>
          ''octocat'' ''hello'' ''main'' sampleMeta eightFiles [])
     = Inl DownloadFailed"
    using download_partial_success [where e = "scenarioEnv [''a1'', ''a2'', ''a3'', ''a4'', ''a5'', ''b1'', ''b2'', ''b3''] None"
        and owner = "''octocat''" and repo = "''hello''" and br = "''main''" and files = eightFiles
        and options = "\<lparr>fetchAll = False, branch = None, maxFileSize = None\<rparr>"
        and repoData = sampleMeta and ?log0.0 = "[]"]
    by (simp add: defs)
  have c: "snd (download (scenarioEnv [''a1'', ''a2'', ''a3'', ''a4'', ''a5'', ''b1'', ''b2'', ''b3''] (Some 0))
          \<lparr>fetchAll = False, branch = None, maxFileSize = None\<rparr>
          ''octocat'' ''hello'' ''main'' sampleMeta eightFiles [])
     = Inr \<lparr>content = header ''octocat'' ''hello'' ''main'' sampleMeta,
            repoDetails = (''octocat'', ''hello'', ''main'')\<rparr>"
    using download_partial_success [where e = "scenarioEnv [''a1'', ''a2'', ''a3'', ''a4'', ''a5'', ''b1'', ''b2'', ''b3''] (Some 0)"
        and owner = "''octocat''" and repo = "''hello''" and br = "''main''" and files = eightFiles
        and options = "\<lparr>fetchAll = False, branch = None, maxFileSize = None\<rparr>"
        and repoData = sampleMeta and ?log0.0 = "[]"]
    by (simp add: defs)
  from a b c show ?thesis by blast
qed

section \<open>Facts about decimal numerals and chunk identifiers\<close>

lemma digit_inj:
  assumes "a < 10" and "b < 10" and "digit a = digit b"
  shows "a = b"
proof -
  from assms(3) have "(48 + a) mod 256 = (48 + b) mod 256"
    by (simp add: digit_def char_of_eq_iff take_bit_eq_mod)
  with assms(1,2) show ?thesis by simp
qed

lemma decimal_small: "n < 10 \<Longrightarrow> decimal n = [digit n]"
  by (subst decimal.simps) simp

lemma decimal_large: "\<not> n < 10 \<Longrightarrow> decimal n = decimal (n div 10) @ [digit (n mod 10)]"
  by (subst decimal.simps) simp

lemma decimal_nonempty: "decimal n \<noteq> []"
  by (cases "n < 10") (simp_all add: decimal_small decimal_large)

lemma decimal_inj: "decimal n = decimal m \<Longrightarrow> n = m"
proof (induction n arbitrary: m rule: decimal.induct)
  case (1 n)
  show ?case
  proof (cases "n < 10")
    case True
    then have n: "decimal n = [digit n]" by (rule decimal_small)
    have "m < 10"
    proof (rule ccontr)
      assume "\<not> m < 10"
      then have "decimal m = decimal (m div 10) @ [digit (m mod 10)]" by (rule decimal_large)
      with n "1.prems" have "decimal (m div 10) = []" by simp
      then show False by (simp add: decimal_nonempty)
    qed
    with n "1.prems" have "digit n = digit m" by (simp add: decimal_small)
    with True \<open>m < 10\<close> show ?thesis by (rule digit_inj)
  next
    case False
    then have n: "decimal n = decimal (n div 10) @ [digit (n mod 10)]" by (rule decimal_large)
    have "\<not> m < 10"
    proof
      assume "m < 10"
      then have "decimal m = [digit m]" by (rule decimal_small)
      with n "1.prems" have "decimal (n div 10) = []" by simp
      then show False by (simp add: decimal_nonempty)
    qed
    then have "decimal m = decimal (m div 10) @ [digit (m mod 10)]" by (rule decimal_large)
    with n "1.prems" have eq: "decimal (n div 10) = decimal (m div 10)"
      and dg: "digit (n mod 10) = digit (m mod 10)" by simp_all
    from False eq have "n div 10 = m div 10" by (rule "1.IH")
    moreover from dg have "n mod 10 = m mod 10" by (intro digit_inj) simp_all
    ultimately show ?thesis by (metis div_mult_mod_eq)
  qed
qed

lemma chunk_ids_distinct: "distinct (map (\<lambda>i. ''chunk-'' @ decimal i) [0..<k])"
  by (auto simp: distinct_map inj_on_def dest: decimal_inj)

section \<open>Facts about the chunker\<close>

lemma subChunks_concat: "concat (subChunks s) = s"
proof (induction s rule: subChunks.induct)
  case (1 s)
  show ?case
  proof (cases "s = []")
    case True
    then show ?thesis by (simp add: subChunks.simps)
  next
    case False
    with 1 have "concat (subChunks (drop 2000 s)) = drop 2000 s" by simp
    with False show ?thesis by (subst subChunks.simps) simp
  qed
qed

lemma subChunks_bound: "p \<in> set (subChunks s) \<Longrightarrow> p \<noteq> [] \<and> length p \<le> 2000"
proof (induction s rule: subChunks.induct)
  case (1 s)
  show ?case
  proof (cases "s = []")
    case True
    with "1.prems" show ?thesis by (simp add: subChunks.simps)
  next
    case False
    with "1.prems" have "p = take 2000 s \<or> p \<in> set (subChunks (drop 2000 s))"
      by (subst (asm) subChunks.simps) simp
    with False "1.IH" show ?thesis by auto
  qed
qed

lemma fileChunks_bound:
  assumes "c \<in> set (fileChunks idx name body)"
  shows "length (chunkContent c) \<le> 2000"
proof (cases "length body > 2000")
  case True
  with assms obtain i sc where "(i, sc) \<in> set (enumerate 0 (subChunks body))"
    and "chunkContent c = sc"
    by (auto simp: fileChunks_def)
  then have "sc \<in> snd ` set (enumerate 0 (subChunks body))" by force
  then have "sc \<in> set (map snd (enumerate 0 (subChunks body)))" by (simp only: set_map)
  then have "sc \<in> set (subChunks body)" by (simp only: map_snd_enumerate)
  with \<open>chunkContent c = sc\<close> show ?thesis using subChunks_bound by simp
next
  case False
  with assms show ?thesis by (simp add: fileChunks_def)
qed

lemma fileChunks_embedding: "c \<in> set (fileChunks idx name body) \<Longrightarrow> embedding c = None"
  by (auto simp: fileChunks_def split: if_splits)

lemma map_enumerate_index:
  "map (\<lambda>(i, x). f i) (enumerate 0 xs) = map f [0..<length xs]"
proof -
  have "map (\<lambda>(i, x). f i) (enumerate 0 xs) = map (f \<circ> fst) (enumerate 0 xs)"
    by (simp add: case_prod_unfold comp_def)
  also have "\<dots> = map f (map fst (enumerate 0 xs))"
    by (simp only: map_map)
  finally show ?thesis by simp
qed

lemma fileChunks_ids:
  "map chunkId (fileChunks idx name body :: 'v CodeChunk list) =
     map (\<lambda>i. ''chunk-'' @ decimal i)
       [idx..<idx + length (fileChunks idx name body :: 'v CodeChunk list)]"
proof (cases "length body > 2000")
  case True
  have "map chunkId (fileChunks idx name body :: 'v CodeChunk list) =
      map (\<lambda>(i, sc). ''chunk-'' @ decimal (idx + i)) (enumerate 0 (subChunks body))"
    using True by (simp add: fileChunks_def case_prod_unfold)
  also have "\<dots> = map (\<lambda>i. ''chunk-'' @ decimal (idx + i)) [0..<length (subChunks body)]"
    by (rule map_enumerate_index)
  also have "\<dots> = map (\<lambda>i. ''chunk-'' @ decimal i) (map (\<lambda>i. idx + i) [0..<length (subChunks body)])"
    by simp
  also have "map (\<lambda>i. idx + i) [0..<length (subChunks body)] = [idx..<idx + length (subChunks body)]"
    by (simp add: map_add_upt add.commute)
  finally show ?thesis using True by (simp add: fileChunks_def)
next
  case False
  then show ?thesis by (simp add: fileChunks_def)
qed

lemma chunkLoop_bound:
  assumes "\<forall>c\<in>set chunks. length (chunkContent c) \<le> 2000"
  shows "\<forall>c\<in>set (chunkLoop s idx chunks). length (chunkContent c) \<le> 2000"
  using assms
proof (induction s idx chunks rule: chunkLoop.induct)
  case (1 s idx chunks)
  show ?case
  proof (cases "exec s")
    case None
    with "1.prems" show ?thesis by (simp add: chunkLoop.simps [of s])
  next
    case (Some m)
    then obtain name body rest where m: "exec s = Some (name, body, rest)"
      by (cases m) auto
    have "\<forall>c\<in>set (chunks @ fileChunks idx name body). length (chunkContent c) \<le> 2000"
      using "1.prems" fileChunks_bound by auto
    with m have "\<forall>c\<in>set (chunkLoop rest (idx + length (fileChunks idx name body :: 'a CodeChunk list))
        (chunks @ fileChunks idx name body)). length (chunkContent c) \<le> 2000"
      by (intro "1.IH") auto
    with m show ?thesis by (simp add: chunkLoop.simps [of s])
  qed
qed

lemma chunkLoop_ids:
  assumes "map chunkId chunks = map (\<lambda>i. ''chunk-'' @ decimal i) [0..<idx]"
  shows "\<exists>k. map chunkId (chunkLoop s idx chunks) = map (\<lambda>i. ''chunk-'' @ decimal i) [0..<k]"
  using assms
proof (induction s idx chunks rule: chunkLoop.induct)
  case (1 s idx chunks)
  show ?case
  proof (cases "exec s")
    case None
    with "1.prems" show ?thesis by (auto simp: chunkLoop.simps [of s])
  next
    case (Some m)
    then obtain name body rest where m: "exec s = Some (name, body, rest)"
      by (cases m) auto
    define new :: "'a CodeChunk list" where "new = fileChunks idx name body"
    have "[0..<idx + length new] = [0..<idx] @ [idx..<idx + length new]"
      by (metis upt_add_eq_append zero_le)
    then have "map chunkId (chunks @ new) = map (\<lambda>i. ''chunk-'' @ decimal i) [0..<idx + length new]"
      using "1.prems" fileChunks_ids [of idx name body, where ?'v = 'a] by (simp add: new_def)
    with m have "\<exists>k. map chunkId (chunkLoop rest (idx + length new) (chunks @ new)) =
        map (\<lambda>i. ''chunk-'' @ decimal i) [0..<k]"
      unfolding new_def by (intro "1.IH") auto
    with m show ?thesis by (simp add: chunkLoop.simps [of s] new_def)
  qed
qed

lemma chunkCode_bound: "\<forall>c\<in>set (chunkCode s). length (chunkContent c) \<le> 2000"
  unfolding chunkCode_def by (rule chunkLoop_bound) simp

lemma chunkCode_ids_distinct: "distinct (map chunkId (chunkCode s :: 'v CodeChunk list))"
proof -
  obtain k where eq: "map chunkId (chunkCode s :: 'v CodeChunk list) = map (\<lambda>i. ''chunk-'' @ decimal i) [0..<k]"
    unfolding chunkCode_def using chunkLoop_ids [of "[] :: 'v CodeChunk list" 0 s] by auto
  show ?thesis unfolding eq by (rule chunk_ids_distinct)
qed

section \<open>The matcher on an assembled corpus\<close>

lemma prefix_nth: "prefix xs ys \<Longrightarrow> i < length xs \<Longrightarrow> ys ! i = xs ! i"
  by (auto simp: prefix_def nth_append)

text \<open>
  A mark whose first character occurs nowhere else in it cannot start inside a text
  that does not contain it and run over into the mark that follows the text.
\<close>

lemma mark_not_early:
  assumes "a \<notin> set t" and "\<not> sublist (a # t) d" and "d \<noteq> []"
  shows "\<not> prefix (a # t) (d @ (a # t) @ rest)"
proof
  assume "prefix (a # t) (d @ (a # t) @ rest)"
  then consider "prefix (a # t) d"
    | us where "a # t = d @ us" and "prefix us ((a # t) @ rest)"
    unfolding prefix_append by blast
  then show False
  proof cases
    case 1
    then have "sublist (a # t) d" by (rule prefix_imp_sublist)
    with assms(2) show False by simp
  next
    case 2
    from assms(3) 2(1) obtain d' where "d = a # d'" and t: "t = d' @ us"
      by (cases d) auto
    show False
    proof (cases us)
      case Nil
      with 2(1) have "prefix (a # t) d" by simp
      then have "sublist (a # t) d" by (rule prefix_imp_sublist)
      with assms(2) show False by simp
    next
      case (Cons u us')
      with 2(2) have "u = a" by simp
      with Cons t have "a \<in> set t" by simp
      with assms(1) show False by simp
    qed
  qed
qed

text \<open>
  A mark whose last character occurs nowhere else in it, and not in the text before
  it, cannot start inside that text.
\<close>

lemma mark_not_early_last:
  assumes "z \<notin> set t" and "z \<notin> set d" and "d \<noteq> []"
  shows "\<not> prefix (t @ [z]) (d @ (t @ [z]) @ rest)"
proof
  assume "prefix (t @ [z]) (d @ (t @ [z]) @ rest)"
  then consider "prefix (t @ [z]) d"
    | us where "t @ [z] = d @ us" and "prefix us ((t @ [z]) @ rest)"
    unfolding prefix_append by blast
  then show False
  proof cases
    case 1
    then have "set (t @ [z]) \<subseteq> set d" by (rule set_mono_prefix)
    with assms(2) show False by simp
  next
    case 2
    show False
    proof (cases us rule: rev_cases)
      case Nil
      with 2(1) have "d = t @ [z]" by simp
      with assms(2) show False by simp
    next
      case (snoc us' z')
      with 2(1) have t: "t = d @ us'" and "z' = z" by simp_all
      with snoc 2(2) have p: "prefix (us' @ [z]) ((t @ [z]) @ rest)" by simp
      from t assms(3) have len: "length us' < length t" by simp
      from p have "((t @ [z]) @ rest) ! length us' = (us' @ [z]) ! length us'"
        by (rule prefix_nth) simp
      with len have "t ! length us' = z" by (simp add: nth_append)
      with len have "z \<in> set t" by (metis nth_mem)
      with assms(1) show False by simp
    qed
  qed
qed

lemma matchBody_hit:
  assumes "\<not> sublist endMark c"
  shows "matchBody (c @ endMark @ rest) = Some (c, rest)"
  using assms
proof (induction c)
  case Nil
  show ?case by (simp add: endMark_def startsWith_def)
next
  case (Cons x xs)
  from Cons.prems have "\<not> sublist endMark xs" by (simp add: sublist_Cons_right)
  then have ih: "matchBody (xs @ endMark @ rest) = Some (xs, rest)" by (rule Cons.IH)
  have "\<not> prefix endMark ((x # xs) @ endMark @ rest)"
    using mark_not_early [of "CHR 0x0A" "''--- END OF FILE ---''" "x # xs" rest] Cons.prems
    by (simp add: endMark_def)
  then have "\<not> startsWith (x # xs @ endMark @ rest) endMark"
    by (simp add: startsWith_prefix)
  with ih show ?case by simp
qed

lemma matchName_hit:
  assumes "\<forall>x\<in>set n. \<not> lineTerminator x" and "matchBody body = Some (b, r)"
  shows "matchName (n @ nameMark @ body) = Some (n, b, r)"
  using assms(1)
proof (induction n)
  case Nil
  from assms(2) show ?case by (simp add: nameMark_def startsWith_def)
next
  case (Cons x xs)
  then have ih: "matchName (xs @ nameMark @ body) = Some (xs, b, r)" by simp
  from Cons.prems have "CHR 0x0A \<notin> set (x # xs)" by (auto simp: lineTerminator_def)
  then have "\<not> prefix ('' ---'' @ [CHR 0x0A]) ((x # xs) @ ('' ---'' @ [CHR 0x0A]) @ body)"
    by (intro mark_not_early_last) simp_all
  then have "\<not> prefix nameMark ((x # xs) @ nameMark @ body)" by (simp add: nameMark_def)
  then have "\<not> startsWith (x # xs @ nameMark @ body) nameMark"
    by (simp add: startsWith_prefix)
  moreover from Cons.prems have "\<not> lineTerminator x" by simp
  ultimately show ?case using ih by simp
qed

lemma matchAt_marks:
  assumes "\<forall>x\<in>set n. \<not> lineTerminator x" and "\<not> sublist endMark c"
  shows "matchAt (startMark @ n @ nameMark @ c @ endMark @ rest) = Some (n, c, rest)"
proof -
  have "matchAt (startMark @ s) = matchName s" for s
    by (simp add: matchAt_def startsWith_def)
  moreover have "matchName (n @ nameMark @ c @ endMark @ rest) = Some (n, c, rest)"
    using assms by (intro matchName_hit matchBody_hit)
  ultimately show ?thesis by simp
qed

lemma matchAt_record:
  assumes "\<forall>x\<in>set n. \<not> lineTerminator x" and "\<not> sublist endMark c"
  shows "matchAt (fileRecord n c @ rest) = Some (n, c, [CHR 0x0A, CHR 0x0A] @ rest)"
proof -
  have e: "fileRecord n c @ rest =
      startMark @ n @ nameMark @ c @ endMark @ [CHR 0x0A, CHR 0x0A] @ rest"
    by (simp add: fileRecord_def startMark_def nameMark_def endMark_def)
  show ?thesis unfolding e using assms by (rule matchAt_marks)
qed

lemma exec_of_matchAt: "matchAt s = Some m \<Longrightarrow> exec s = Some m"
  by (cases s) (simp_all add: matchAt_def startsWith_def startMark_def)

text \<open>A stretch of text in which no match starts is skipped.\<close>

lemma exec_skip:
  assumes "\<forall>j<length pre. \<not> startsWith (drop j pre @ s) startMark"
  shows "exec (pre @ s) = exec s"
  using assms
proof (induction pre)
  case Nil
  show ?case by simp
next
  case (Cons x xs)
  from Cons.prems have "\<not> startsWith (drop 0 (x # xs) @ s) startMark" by blast
  then have "matchAt (x # xs @ s) = None" by (simp add: matchAt_def)
  moreover have "\<forall>j<length xs. \<not> startsWith (drop j xs @ s) startMark"
  proof (intro allI impI)
    fix j assume "j < length xs"
    then have "Suc j < length (x # xs)" by simp
    with Cons.prems have "\<not> startsWith (drop (Suc j) (x # xs) @ s) startMark" by blast
    then show "\<not> startsWith (drop j xs @ s) startMark" by simp
  qed
  then have "exec (xs @ s) = exec s" by (rule Cons.IH)
  ultimately show ?case by simp
qed

lemma exec_skip_newlines: "exec ([CHR 0x0A, CHR 0x0A] @ s) = exec s"
  by (simp add: matchAt_def startsWith_def startMark_def)

lemma exec_skip_header:
  assumes "\<not> sublist startMark h" and "h = [] \<or> last h = CHR 0x0A"
  shows "exec (h @ s) = exec s"
proof (rule exec_skip, intro allI impI)
  fix j assume j: "j < length h"
  show "\<not> startsWith (drop j h @ s) startMark"
  proof
    assume "startsWith (drop j h @ s) startMark"
    then have "prefix startMark (drop j h @ s)" by (simp add: startsWith_prefix)
    then consider "prefix startMark (drop j h)" | us where "startMark = drop j h @ us"
      unfolding prefix_append by blast
    then show False
    proof cases
      case 1
      then have "sublist startMark (drop j h)" by (rule prefix_imp_sublist)
      moreover have "sublist (drop j h) h" by (rule sublist_drop)
      ultimately have "sublist startMark h" by (rule sublist_order.order_trans)
      with assms(1) show False by simp
    next
      case 2
      from j have ne: "drop j h \<noteq> []" by simp
      with j assms(2) have "last (drop j h) = CHR 0x0A" by auto
      with ne have "CHR 0x0A \<in> set (drop j h)" by (metis last_in_set)
      with 2 have "CHR 0x0A \<in> set startMark" by (metis Un_iff set_append)
      then show False by (simp add: startMark_def)
    qed
  qed
qed

lemma chunkLoop_done: "exec s = None \<Longrightarrow> chunkLoop s idx chunks = chunks"
  by (subst chunkLoop.simps) simp

lemma chunkLoop_step:
  "exec s = Some (n, b, r) \<Longrightarrow>
     chunkLoop s idx chunks =
       chunkLoop r (idx + length (fileChunks idx n b :: 'v CodeChunk list))
         (chunks @ (fileChunks idx n b :: 'v CodeChunk list))"
  by (subst chunkLoop.simps) simp

lemma chunkLoop_records:
  assumes "\<forall>(n, c)\<in>set files. (\<forall>x\<in>set n. \<not> lineTerminator x) \<and> \<not> sublist endMark c"
    and "exec (pre @ concat (map (\<lambda>(n, c). fileRecord n c) files)) =
         exec (concat (map (\<lambda>(n, c). fileRecord n c) files))"
  shows "chunkLoop (pre @ concat (map (\<lambda>(n, c). fileRecord n c) files)) idx chunks =
     chunks @ chunksOf idx files"
  using assms
proof (induction files arbitrary: pre idx chunks)
  case Nil
  then have "exec (pre @ concat (map (\<lambda>(n, c). fileRecord n c) [])) = None" by simp
  then show ?case by (simp only: chunkLoop_done chunksOf.simps append_Nil2)
next
  case (Cons f fs)
  obtain n c where f: "f = (n, c)" by (cases f)
  define R where "R = concat (map (\<lambda>(n, c). fileRecord n c) fs)"
  from Cons.prems(1) f have good: "\<forall>x\<in>set n. \<not> lineTerminator x" "\<not> sublist endMark c"
    and rest: "\<forall>(n, c)\<in>set fs. (\<forall>x\<in>set n. \<not> lineTerminator x) \<and> \<not> sublist endMark c"
    by auto
  from good have "matchAt (fileRecord n c @ R) = Some (n, c, [CHR 0x0A, CHR 0x0A] @ R)"
    by (rule matchAt_record)
  then have "exec (fileRecord n c @ R) = Some (n, c, [CHR 0x0A, CHR 0x0A] @ R)"
    by (rule exec_of_matchAt)
  with Cons.prems(2) f have ex: "exec (pre @ concat (map (\<lambda>(n, c). fileRecord n c) (f # fs))) =
      Some (n, c, [CHR 0x0A, CHR 0x0A] @ R)"
    by (simp add: R_def)
  have "chunkLoop ([CHR 0x0A, CHR 0x0A] @ R) (idx + length (fileChunks idx n c :: 'a CodeChunk list))
      (chunks @ fileChunks idx n c) =
      (chunks @ fileChunks idx n c) @
        chunksOf (idx + length (fileChunks idx n c :: 'a CodeChunk list)) fs"
    unfolding R_def using rest by (intro Cons.IH) (simp_all only: exec_skip_newlines)
  moreover from ex have "chunkLoop (pre @ concat (map (\<lambda>(n, c). fileRecord n c) (f # fs))) idx chunks =
      chunkLoop ([CHR 0x0A, CHR 0x0A] @ R) (idx + length (fileChunks idx n c :: 'a CodeChunk list))
        (chunks @ fileChunks idx n c)"
    by (rule chunkLoop_step)
  ultimately show ?case using f by simp
qed

lemma fileChunks_recovered:
  "recovered (n, c) (map pairOf (fileChunks idx n c :: 'v CodeChunk list))"
proof (cases "length c \<le> 2000")
  case True
  then show ?thesis by (simp add: recovered_def fileChunks_def pairOf_def)
next
  case False
  define g where "g = map pairOf (fileChunks idx n c :: 'v CodeChunk list)"
  from False have g: "g = map (\<lambda>(i, sc). (partName n i, sc)) (enumerate 0 (subChunks c))"
    by (simp add: g_def fileChunks_def pairOf_def partName_def case_prod_unfold)
  have s: "map snd g = subChunks c"
    unfolding g by (simp add: case_prod_unfold comp_def)
  have len: "length g = length (subChunks c)" unfolding g by simp
  have "map fst g = map (\<lambda>(i, sc). partName n i) (enumerate 0 (subChunks c))"
    unfolding g by (simp add: case_prod_unfold)
  also have "\<dots> = map (partName n) [0..<length (subChunks c)]"
    by (rule map_enumerate_index)
  finally have f: "map fst g = map (partName n) [0..<length g]" by (simp only: len)
  have "list_all (\<lambda>p. p \<noteq> [] \<and> length p \<le> 2000) (subChunks c)"
    using subChunks_bound by (auto simp: list_all_iff)
  with s f False show ?thesis
    unfolding g_def [symmetric] by (simp add: recovered_def subChunks_concat)
qed

lemma chunksOf_recovered:
  "\<exists>groups. map pairOf (chunksOf idx files :: 'v CodeChunk list) = concat groups
     \<and> list_all2 recovered files groups"
proof (induction files arbitrary: idx)
  case Nil
  show ?case by simp
next
  case (Cons f fs)
  obtain n c where f: "f = (n, c)" by (cases f)
  obtain groups where
    g: "map pairOf (chunksOf (idx + length (fileChunks idx n c :: 'v CodeChunk list)) fs
          :: 'v CodeChunk list) = concat groups"
    and r: "list_all2 recovered fs groups"
    using Cons.IH by blast
  have "map pairOf (chunksOf idx (f # fs) :: 'v CodeChunk list) =
      concat (map pairOf (fileChunks idx n c :: 'v CodeChunk list) # groups)"
    using f g by simp
  moreover have "list_all2 recovered (f # fs)
      (map pairOf (fileChunks idx n c :: 'v CodeChunk list) # groups)"
    using f r fileChunks_recovered [of n c idx, where ?'v = 'v] by simp
  ultimately show ?case by blast
qed

lemma header_last:
  "header owner repo br repoData \<noteq> [] \<and> last (header owner repo br repoData) = CHR 0x0A"
  by (simp add: header_def)

lemma chunkCode_corpus:
  assumes "\<not> sublist startMark (header owner repo br repoData)"
    and "\<forall>(n, c)\<in>set files. (\<forall>x\<in>set n. \<not> lineTerminator x) \<and> \<not> sublist endMark c"
  shows "chunkCode (corpus owner repo br repoData files) = chunksOf 0 files"
proof -
  have "exec (header owner repo br repoData @ concat (map (\<lambda>(n, c). fileRecord n c) files)) =
      exec (concat (map (\<lambda>(n, c). fileRecord n c) files))"
    using assms(1) header_last by (intro exec_skip_header) simp_all
  with assms(2) show ?thesis
    unfolding chunkCode_def corpus_def by (simp add: chunkLoop_records)
qed

section \<open>The round trip through the corpus\<close>

lemma header_sample_clean:
  "\<not> sublist ''--- FILE: '' (header ''octocat'' ''hello'' ''main'' sampleMeta)"
  by (simp add: includesStr_sublist [symmetric] header_def sampleMeta_def orElse_def
      decimal_small string_eval)

lemma replicate_clean: "x \<noteq> CHR 0x0A \<Longrightarrow> \<not> sublist endMark (replicate k x)"
proof
  assume x: "x \<noteq> CHR 0x0A" and "sublist endMark (replicate k x)"
  then have "set endMark \<subseteq> set (replicate k x)" by (intro set_mono_sublist)
  moreover have "CHR 0x0A \<in> set endMark" by (simp add: endMark_def)
  ultimately have "CHR 0x0A \<in> set (replicate k x)" by blast
  with x show False by simp
qed

lemma subChunks_replicate_4001:
  "subChunks (replicate 4001 x) = [replicate 2000 x, replicate 2000 x, replicate 1 x]"
proof -
  have "subChunks (replicate 4001 x) = replicate 2000 x # subChunks (replicate 2001 x)"
    by (subst subChunks.simps) simp
  also have "subChunks (replicate 2001 x) = replicate 2000 x # subChunks (replicate 1 x)"
    by (subst subChunks.simps) simp
  also have "subChunks (replicate 1 x) = replicate 1 x # subChunks []"
    by (subst subChunks.simps) simp
  also have "subChunks [] = ([] :: string list)"
    by (subst subChunks.simps) simp
  finally show ?thesis .
qed

lemma round_trip_cut_and_boundary:
  "map pairOf (chunkCode (corpus ''octocat'' ''hello'' ''main'' sampleMeta
       [(''a.txt'', ''x\<newline>--- END OF FILE ---\<newline>y'')]) :: unit CodeChunk list)
     = [(''a.txt'', ''x'')]
   \<and> map pairOf (chunkCode (corpus ''octocat'' ''hello'' ''main'' sampleMeta
       [(''b.txt'', replicate 2000 (CHR ''b''))]) :: unit CodeChunk list)
     = [(''b.txt'', replicate 2000 (CHR ''b''))]"
proof -
  define rest where "rest = ''\<newline>y\<newline>--- END OF FILE ---\<newline>\<newline>''"
  have "fileRecord ''a.txt'' ''x\<newline>--- END OF FILE ---\<newline>y'' =
      startMark @ ''a.txt'' @ nameMark @ ''x'' @ endMark @ rest"
    by (simp add: fileRecord_def rest_def startMark_def nameMark_def endMark_def)
  moreover have "matchAt (startMark @ ''a.txt'' @ nameMark @ ''x'' @ endMark @ rest) =
      Some (''a.txt'', ''x'', rest)"
    by (intro matchAt_marks)
      (simp_all add: lineTerminator_def includesStr_sublist [symmetric] endMark_def startsWith_def)
  ultimately have "exec (fileRecord ''a.txt'' ''x\<newline>--- END OF FILE ---\<newline>y'') =
      Some (''a.txt'', ''x'', rest)"
    by (simp only: exec_of_matchAt)
  moreover have "exec (header ''octocat'' ''hello'' ''main'' sampleMeta @
        fileRecord ''a.txt'' ''x\<newline>--- END OF FILE ---\<newline>y'') =
      exec (fileRecord ''a.txt'' ''x\<newline>--- END OF FILE ---\<newline>y'')"
    using header_sample_clean header_last
    by (intro exec_skip_header) (simp_all add: startMark_def)
  ultimately have "exec (corpus ''octocat'' ''hello'' ''main'' sampleMeta
        [(''a.txt'', ''x\<newline>--- END OF FILE ---\<newline>y'')]) =
      Some (''a.txt'', ''x'', rest)"
    by (simp add: corpus_def)
  then have "chunkCode (corpus ''octocat'' ''hello'' ''main'' sampleMeta
        [(''a.txt'', ''x\<newline>--- END OF FILE ---\<newline>y'')]) =
      chunkLoop rest
        (0 + length (fileChunks 0 ''a.txt'' ''x'' :: unit CodeChunk list))
        ([] @ (fileChunks 0 ''a.txt'' ''x'' :: unit CodeChunk list))"
    unfolding chunkCode_def by (rule chunkLoop_step)
  moreover have "exec rest = None"
    by (simp add: rest_def matchAt_def startsWith_def startMark_def)
  ultimately have a: "chunkCode (corpus ''octocat'' ''hello'' ''main'' sampleMeta
        [(''a.txt'', ''x\<newline>--- END OF FILE ---\<newline>y'')]) =
      (fileChunks 0 ''a.txt'' ''x'' :: unit CodeChunk list)"
    by (simp only: chunkLoop_done append_Nil)
  have "chunkCode (corpus ''octocat'' ''hello'' ''main'' sampleMeta
        [(''b.txt'', replicate 2000 (CHR ''b''))]) =
      (chunksOf 0 [(''b.txt'', replicate 2000 (CHR ''b''))] :: unit CodeChunk list)"
    using header_sample_clean
    by (intro chunkCode_corpus) (simp_all add: startMark_def lineTerminator_def replicate_clean)
  then have b: "map pairOf (chunkCode (corpus ''octocat'' ''hello'' ''main'' sampleMeta
       [(''b.txt'', replicate 2000 (CHR ''b''))]) :: unit CodeChunk list)
     = [(''b.txt'', replicate 2000 (CHR ''b''))]"
    by (simp add: fileChunks_def pairOf_def)
  from a b show ?thesis by (simp add: fileChunks_def pairOf_def)
qed

lemma round_trip_header_injection:
  "map pairOf (chunkCode (corpus ''octocat'' ''hello'' ''main'' fakeMeta [(''a.txt'', ''x'')])
     :: unit CodeChunk list)
   = [(''fake'', ''Stars: 7\<newline>Language: TypeScript\<newline>\<newline>--- FILE: a.txt ---\<newline>x'')]"
proof -
  define pre where "pre = ''Repository: octocat/hello\<newline>Branch: main\<newline>Description: ''"
  define body where "body = ''Stars: 7\<newline>Language: TypeScript\<newline>\<newline>--- FILE: a.txt ---\<newline>x''"
  have c: "corpus ''octocat'' ''hello'' ''main'' fakeMeta [(''a.txt'', ''x'')] =
      pre @ startMark @ ''fake'' @ nameMark @ body @ endMark @ [CHR 0x0A, CHR 0x0A]"
    by (simp add: corpus_def header_def fakeMeta_def orElse_def decimal_small digit_def char_of_def
        bit_Suc_0_iff fileRecord_def pre_def body_def startMark_def nameMark_def endMark_def)
  have "matchAt (startMark @ ''fake'' @ nameMark @ body @ endMark @ [CHR 0x0A, CHR 0x0A]) =
      Some (''fake'', body, [CHR 0x0A, CHR 0x0A])"
    by (intro matchAt_marks)
      (simp_all add: lineTerminator_def includesStr_sublist [symmetric] endMark_def startsWith_def body_def)
  then have "exec (startMark @ ''fake'' @ nameMark @ body @ endMark @ [CHR 0x0A, CHR 0x0A]) =
      Some (''fake'', body, [CHR 0x0A, CHR 0x0A])"
    by (rule exec_of_matchAt)
  moreover have "exec (pre @ s) = exec s" for s
    by (simp add: pre_def matchAt_def startsWith_def startMark_def)
  ultimately have "exec (corpus ''octocat'' ''hello'' ''main'' fakeMeta [(''a.txt'', ''x'')]) =
      Some (''fake'', body, [CHR 0x0A, CHR 0x0A])"
    by (simp only: c)
  then have "chunkCode (corpus ''octocat'' ''hello'' ''main'' fakeMeta [(''a.txt'', ''x'')]) =
      chunkLoop [CHR 0x0A, CHR 0x0A]
        (0 + length (fileChunks 0 ''fake'' body :: unit CodeChunk list))
        ([] @ (fileChunks 0 ''fake'' body :: unit CodeChunk list))"
    unfolding chunkCode_def by (rule chunkLoop_step)
  moreover have "exec [CHR 0x0A, CHR 0x0A] = None"
    by (simp add: matchAt_def startsWith_def startMark_def)
  ultimately have "chunkCode (corpus ''octocat'' ''hello'' ''main'' fakeMeta [(''a.txt'', ''x'')]) =
      (fileChunks 0 ''fake'' body :: unit CodeChunk list)"
    by (simp only: chunkLoop_done append_Nil)
  then show ?thesis by (simp add: fileChunks_def pairOf_def body_def)
qed

lemma round_trip_name_newline:
  "(chunkCode (corpus ''octocat'' ''hello'' ''main'' sampleMeta [(''a\<newline>b'', ''x'')])
     :: unit CodeChunk list) = []"
proof -
  have "exec (header ''octocat'' ''hello'' ''main'' sampleMeta @ fileRecord ''a\<newline>b'' ''x'') =
      exec (fileRecord ''a\<newline>b'' ''x'')"
    using header_sample_clean header_last
    by (intro exec_skip_header) (simp_all add: startMark_def)
  moreover have "exec (fileRecord ''a\<newline>b'' ''x'') = None"
    by (simp add: fileRecord_def matchAt_def startsWith_def startMark_def nameMark_def endMark_def
        lineTerminator_def)
  ultimately have "exec (corpus ''octocat'' ''hello'' ''main'' sampleMeta [(''a\<newline>b'', ''x'')]) = None"
    by (simp add: corpus_def)
  then show ?thesis unfolding chunkCode_def by (rule chunkLoop_done)
qed

text \<open>
  C1, as the claim states it, fails. A file whose content holds the end delimiter on a
  line of its own comes back cut at that line. A file of exactly 2000 characters, which
  is at the threshold, comes back whole under its own name, not as parts with a part
  index. A repository description that holds a start delimiter makes the chunker take
  the rest of the header and the first file for the content of a file that was never
  assembled. And a file whose name holds a line break does not come back at all.
\<close>

theorem round_trip_fails:
  "map pairOf (chunkCode (corpus ''octocat'' ''hello'' ''main'' sampleMeta
       [(''a.txt'', ''x\<newline>--- END OF FILE ---\<newline>y'')]) :: unit CodeChunk list)
     = [(''a.txt'', ''x'')]
   \<and> map pairOf (chunkCode (corpus ''octocat'' ''hello'' ''main'' sampleMeta
       [(''b.txt'', replicate 2000 (CHR ''b''))]) :: unit CodeChunk list)
     = [(''b.txt'', replicate 2000 (CHR ''b''))]
   \<and> map pairOf (chunkCode (corpus ''octocat'' ''hello'' ''main'' fakeMeta [(''a.txt'', ''x'')])
       :: unit CodeChunk list)
     = [(''fake'', ''Stars: 7\<newline>Language: TypeScript\<newline>\<newline>--- FILE: a.txt ---\<newline>x'')]
   \<and> (chunkCode (corpus ''octocat'' ''hello'' ''main'' sampleMeta [(''a\<newline>b'', ''x'')])
       :: unit CodeChunk list) = []"
  using round_trip_cut_and_boundary round_trip_header_injection round_trip_name_newline
  by (intro conjI) simp_all

text \<open>
  C1, amended: when the header holds no \<open>--- FILE: \<close>, no file name holds a line
  terminator and no content holds a line break followed by \<open>--- END OF FILE ---\<close>,
  chunking the assembled corpus gives, file by file and in order, the file itself when
  its content has at most 2000 characters, and otherwise parts labelled with the file
  name and a part index from 1 on, each of 1 to 2000 characters, whose contents rejoin
  to the content of the file.
\<close>

theorem corpus_chunk_round_trip:
  assumes "\<not> sublist ''--- FILE: '' (header owner repo br repoData)"
    and "\<forall>(n, c)\<in>set files. CHR 0x0A \<notin> set n \<and> CHR 0x0D \<notin> set n
           \<and> \<not> sublist ''\<newline>--- END OF FILE ---'' c"
  shows "\<exists>groups.
      map pairOf (chunkCode (corpus owner repo br repoData files) :: 'v CodeChunk list) = concat groups
      \<and> list_all2 recovered files groups"
proof -
  from assms(1) have "\<not> sublist startMark (header owner repo br repoData)"
    by (simp add: startMark_def)
  moreover from assms(2)
  have "\<forall>(n, c)\<in>set files. (\<forall>x\<in>set n. \<not> lineTerminator x) \<and> \<not> sublist endMark c"
    by (auto simp: lineTerminator_def endMark_def)
  ultimately have "chunkCode (corpus owner repo br repoData files) =
      (chunksOf 0 files :: 'v CodeChunk list)"
    by (rule chunkCode_corpus)
  then show ?thesis by (simp only: chunksOf_recovered)
qed

theorem corpus_chunk_round_trip_witness:
  "\<exists>g. map pairOf (chunkCode (corpus ''octocat'' ''hello'' ''main'' sampleMeta
         [(''a.ts'', ''let x = 1;''), (''big.txt'', replicate 4001 (CHR ''a''))])
         :: unit CodeChunk list)
       = (''a.ts'', ''let x = 1;'') # g
     \<and> concat (map snd g) = replicate 4001 (CHR ''a'')
     \<and> map fst g = map (partName ''big.txt'') [0..<length g]"
proof -
  have "\<not> sublist ''\<newline>--- END OF FILE ---'' ''let x = 1;''"
    by (simp add: includesStr_sublist [symmetric] startsWith_def)
  moreover have "\<not> sublist ''\<newline>--- END OF FILE ---'' (replicate 4001 (CHR ''a''))"
    using replicate_clean [of "CHR ''a''" 4001] by (simp add: endMark_def)
  ultimately have "\<forall>(n, c)\<in>set [(''a.ts'', ''let x = 1;''), (''big.txt'', replicate 4001 (CHR ''a''))].
      CHR 0x0A \<notin> set n \<and> CHR 0x0D \<notin> set n \<and> \<not> sublist ''\<newline>--- END OF FILE ---'' c"
    by simp
  from corpus_chunk_round_trip [OF header_sample_clean this, where ?'v = unit]
  obtain groups where
    m: "map pairOf (chunkCode (corpus ''octocat'' ''hello'' ''main'' sampleMeta
         [(''a.ts'', ''let x = 1;''), (''big.txt'', replicate 4001 (CHR ''a''))])
         :: unit CodeChunk list) = concat groups"
    and r: "list_all2 recovered
         [(''a.ts'', ''let x = 1;''), (''big.txt'', replicate 4001 (CHR ''a''))] groups"
    by blast
  from r obtain ga gb where groups: "groups = [ga, gb]"
    and a: "recovered (''a.ts'', ''let x = 1;'') ga"
    and b: "recovered (''big.txt'', replicate 4001 (CHR ''a'')) gb"
    by (auto simp: list_all2_Cons1)
  from a have "ga = [(''a.ts'', ''let x = 1;'')]" by (simp add: recovered_def)
  with m groups have 1: "map pairOf (chunkCode (corpus ''octocat'' ''hello'' ''main'' sampleMeta
         [(''a.ts'', ''let x = 1;''), (''big.txt'', replicate 4001 (CHR ''a''))])
         :: unit CodeChunk list) = (''a.ts'', ''let x = 1;'') # gb"
    by simp
  from b have 2: "concat (map snd gb) = replicate 4001 (CHR ''a'')"
    and 3: "map fst gb = map (partName ''big.txt'') [0..<length gb]"
    by (simp_all add: recovered_def)
  from 1 2 3 have "map pairOf (chunkCode (corpus ''octocat'' ''hello'' ''main'' sampleMeta
         [(''a.ts'', ''let x = 1;''), (''big.txt'', replicate 4001 (CHR ''a''))])
         :: unit CodeChunk list) = (''a.ts'', ''let x = 1;'') # gb
     \<and> concat (map snd gb) = replicate 4001 (CHR ''a'')
     \<and> map fst gb = map (partName ''big.txt'') [0..<length gb]"
    by (intro conjI)
  then show ?thesis by (rule exI)
qed

section \<open>The chunk-size invariant\<close>

text \<open>
  C10: whatever the input string, no chunk of \<open>chunkCode\<close> has a content longer than
  2000 characters, and the chunk identifiers are pairwise distinct.
\<close>

theorem chunk_size_invariant:
  "(\<forall>c\<in>set (chunkCode s :: 'v CodeChunk list). length (chunkContent c) \<le> 2000)
   \<and> distinct (map chunkId (chunkCode s :: 'v CodeChunk list))"
  using chunkCode_bound chunkCode_ids_distinct by blast

theorem chunk_size_invariant_witness:
  "map (\<lambda>c. length (chunkContent c))
      (chunkCode (corpus ''octocat'' ''hello'' ''main'' sampleMeta
         [(''big.txt'', replicate 4001 (CHR ''a''))]) :: unit CodeChunk list)
     = [2000, 2000, 1]
   \<and> map chunkId
      (chunkCode (corpus ''octocat'' ''hello'' ''main'' sampleMeta
         [(''big.txt'', replicate 4001 (CHR ''a''))]) :: unit CodeChunk list)
     = [''chunk-0'', ''chunk-1'', ''chunk-2'']
   \<and> list_all (\<lambda>c. length (chunkContent c) \<le> 2000)
      (chunkCode (corpus ''octocat'' ''hello'' ''main'' sampleMeta
         [(''big.txt'', replicate 4001 (CHR ''a''))]) :: unit CodeChunk list)
   \<and> distinct (map chunkId
      (chunkCode (corpus ''octocat'' ''hello'' ''main'' sampleMeta
         [(''big.txt'', replicate 4001 (CHR ''a''))]) :: unit CodeChunk list))"
proof -
  have "chunkCode (corpus ''octocat'' ''hello'' ''main'' sampleMeta
         [(''big.txt'', replicate 4001 (CHR ''a''))]) =
      (chunksOf 0 [(''big.txt'', replicate 4001 (CHR ''a''))] :: unit CodeChunk list)"
    using header_sample_clean
    by (intro chunkCode_corpus) (simp_all add: startMark_def lineTerminator_def replicate_clean)
  then have "map (\<lambda>c. length (chunkContent c))
      (chunkCode (corpus ''octocat'' ''hello'' ''main'' sampleMeta
         [(''big.txt'', replicate 4001 (CHR ''a''))]) :: unit CodeChunk list)
     = [2000, 2000, 1]"
    and "map chunkId
      (chunkCode (corpus ''octocat'' ''hello'' ''main'' sampleMeta
         [(''big.txt'', replicate 4001 (CHR ''a''))]) :: unit CodeChunk list)
     = [''chunk-0'', ''chunk-1'', ''chunk-2'']"
    by (simp_all add: fileChunks_def subChunks_replicate_4001 enumerate_eq_zip upt_rec
        decimal_small digit_def char_of_def bit_Suc_0_iff)
  with chunk_size_invariant [of "corpus ''octocat'' ''hello'' ''main'' sampleMeta
         [(''big.txt'', replicate 4001 (CHR ''a''))]", where ?'v = unit]
  show ?thesis by (simp only: list_all_iff) simp
qed

section \<open>The embedding indexer\<close>

lemma chunkLoop_embedding:
  assumes "\<forall>c\<in>set chunks. embedding c = None"
  shows "\<forall>c\<in>set (chunkLoop s idx chunks). embedding c = None"
  using assms
proof (induction s idx chunks rule: chunkLoop.induct)
  case (1 s idx chunks)
  show ?case
  proof (cases "exec s")
    case None
    with "1.prems" show ?thesis by (simp add: chunkLoop_done)
  next
    case (Some m)
    then obtain name body rest where m: "exec s = Some (name, body, rest)"
      by (cases m) auto
    have "\<forall>c\<in>set (chunks @ fileChunks idx name body). embedding c = None"
      using "1.prems" fileChunks_embedding by auto
    with m have "\<forall>c\<in>set (chunkLoop rest (idx + length (fileChunks idx name body :: 'a CodeChunk list))
        (chunks @ fileChunks idx name body)). embedding c = None"
      by (intro "1.IH") auto
    with m show ?thesis by (simp add: chunkLoop_step)
  qed
qed

lemma chunkCode_embedding:
  "c \<in> set (chunkCode s :: 'v CodeChunk list) \<Longrightarrow> embedding c = None"
  unfolding chunkCode_def using chunkLoop_embedding [of "[] :: 'v CodeChunk list" s 0] by simp

lemma index_loop:
  "foldl (indexStep gen chunks) ([], []) [0..<n] =
     (map (\<lambda>i. (i + 1, length chunks)) [0..<n], map (indexed gen chunks) [0..<n])"
  by (induction n) (auto simp: indexStep_def indexed_def split: option.splits)

lemma indexed_fields:
  "chunkId (indexed gen chunks i) = chunkId (chunks ! i)"
  "fileName (indexed gen chunks i) = fileName (chunks ! i)"
  "chunkContent (indexed gen chunks i) = chunkContent (chunks ! i)"
  by (simp_all add: indexed_def split: option.splits)

lemma indexed_embedding:
  "embedding (chunks ! i) = None \<Longrightarrow>
     embedding (indexed gen chunks i) = gen i (chunkContent (chunks ! i))"
  by (simp add: indexed_def split: option.splits)

text \<open>
  C9: the indexer returns one entry per chunk of \<open>chunkCode\<close>, in the same order and
  with the same id, file name and content; the entry of a chunk carries the embedding
  its request returned, and none when the request failed, which stops nothing; and
  progress is reported as \<open>(i, total)\<close> for each chunk in turn.
\<close>

theorem index_partial_failure:
  fixes gen :: "nat \<Rightarrow> string \<Rightarrow> 'v option"
  shows "map chunkId (snd (indexCodebase gen s)) = map chunkId (chunkCode s :: 'v CodeChunk list)
   \<and> map fileName (snd (indexCodebase gen s)) = map fileName (chunkCode s :: 'v CodeChunk list)
   \<and> map chunkContent (snd (indexCodebase gen s)) = map chunkContent (chunkCode s :: 'v CodeChunk list)
   \<and> map embedding (snd (indexCodebase gen s)) =
       map (\<lambda>(i, c). gen i (chunkContent c)) (enumerate 0 (chunkCode s :: 'v CodeChunk list))
   \<and> fst (indexCodebase gen s) =
       map (\<lambda>i. (i + 1, length (chunkCode s :: 'v CodeChunk list)))
         [0..<length (chunkCode s :: 'v CodeChunk list)]"
proof -
  define chunks :: "'v CodeChunk list" where "chunks = chunkCode s"
  have ix: "indexCodebase gen s =
      (map (\<lambda>i. (i + 1, length chunks)) [0..<length chunks],
       map (indexed gen chunks) [0..<length chunks])"
    by (simp add: indexCodebase_def chunks_def index_loop Let_def)
  have none: "embedding (chunks ! i) = None" if "i < length chunks" for i
    using that chunkCode_embedding [of "chunks ! i" s] by (simp add: chunks_def)
  have 1: "map chunkId (map (indexed gen chunks) [0..<length chunks]) = map chunkId chunks"
    by (intro nth_equalityI) (simp_all add: indexed_fields)
  have 2: "map fileName (map (indexed gen chunks) [0..<length chunks]) = map fileName chunks"
    by (intro nth_equalityI) (simp_all add: indexed_fields)
  have 3: "map chunkContent (map (indexed gen chunks) [0..<length chunks]) = map chunkContent chunks"
    by (intro nth_equalityI) (simp_all add: indexed_fields)
  have 4: "map embedding (map (indexed gen chunks) [0..<length chunks]) =
      map (\<lambda>(i, c). gen i (chunkContent c)) (enumerate 0 chunks)"
    by (intro nth_equalityI) (simp_all add: indexed_embedding none nth_enumerate_eq)
  from 1 2 3 4 show ?thesis
    unfolding chunks_def [symmetric] ix by simp
qed

theorem index_partial_failure_witness:
  "map chunkId (snd (indexCodebase firstOnly (corpus ''octocat'' ''hello'' ''main'' sampleMeta
       [(''a.ts'', ''let x = 1;''), (''b.md'', ''# hi'')]))) = [''chunk-0'', ''chunk-1'']
   \<and> map fileName (snd (indexCodebase firstOnly (corpus ''octocat'' ''hello'' ''main'' sampleMeta
       [(''a.ts'', ''let x = 1;''), (''b.md'', ''# hi'')]))) = [''a.ts'', ''b.md'']
   \<and> map chunkContent (snd (indexCodebase firstOnly (corpus ''octocat'' ''hello'' ''main'' sampleMeta
       [(''a.ts'', ''let x = 1;''), (''b.md'', ''# hi'')]))) = [''let x = 1;'', ''# hi'']
   \<and> map embedding (snd (indexCodebase firstOnly (corpus ''octocat'' ''hello'' ''main'' sampleMeta
       [(''a.ts'', ''let x = 1;''), (''b.md'', ''# hi'')]))) = [Some [1, 2, 3], None]
   \<and> fst (indexCodebase firstOnly (corpus ''octocat'' ''hello'' ''main'' sampleMeta
       [(''a.ts'', ''let x = 1;''), (''b.md'', ''# hi'')])) = [(1, 2), (2, 2)]"
proof -
  have "chunkCode (corpus ''octocat'' ''hello'' ''main'' sampleMeta
         [(''a.ts'', ''let x = 1;''), (''b.md'', ''# hi'')]) =
      (chunksOf 0 [(''a.ts'', ''let x = 1;''), (''b.md'', ''# hi'')] :: int list CodeChunk list)"
    using header_sample_clean
    by (intro chunkCode_corpus)
      (simp_all add: startMark_def lineTerminator_def includesStr_sublist [symmetric]
        endMark_def startsWith_def)
  then have c: "chunkCode (corpus ''octocat'' ''hello'' ''main'' sampleMeta
         [(''a.ts'', ''let x = 1;''), (''b.md'', ''# hi'')]) =
      [\<lparr>chunkId = ''chunk-0'', fileName = ''a.ts'', chunkContent = ''let x = 1;'',
        embedding = None :: int list option\<rparr>,
       \<lparr>chunkId = ''chunk-1'', fileName = ''b.md'', chunkContent = ''# hi'', embedding = None\<rparr>]"
    by (simp add: fileChunks_def decimal_small digit_def char_of_def bit_Suc_0_iff)
  note t = index_partial_failure [of firstOnly "corpus ''octocat'' ''hello'' ''main'' sampleMeta
         [(''a.ts'', ''let x = 1;''), (''b.md'', ''# hi'')]", unfolded c]
  from t show ?thesis by (simp add: firstOnly_def)
qed

section \<open>The similarity search\<close>





















end
